theory Spec2Isabelle
  imports Main "HOL-Library.Word"
begin

section \<open>JavaScript values\<close>

text \<open>
  The library works on plain JavaScript values: formula trees are JSON objects, truth
  assignments are objects whose values are compared with \<open>=== true\<close> and
  \<open>=== false\<close>. \<open>JUndef\<close> is \<open>undefined\<close>, the result of reading a property
  that is absent. A number is an integer of magnitude below \<open>2^53\<close>, which JavaScript holds
  exactly and prints in decimal: \<open>JNum n\<close> is the number \<open>sint n\<close>. A value is a tree: two positions of a value never
  hold the same object, so \<open>===\<close> on objects and arrays taken from two positions is false.
\<close>

datatype json =
    JUndef
  | JNull
  | JBool bool
  | JNum "54 word"
  | JStr string
  | JArr "json list"
  | JObj "(string \<times> json) list"

datatype error =
    StateNotFound nat
  | InvalidFormula
  | InvalidJSON
  | InvalidModel
  | InvalidWff
  | TypeError
  | ReferenceError

text \<open>Truthiness, as \<open>if (v)\<close>, \<open>!v\<close>, \<open>&&\<close> and the callbacks of \<open>every\<close>/\<open>some\<close> read it.\<close>

fun truthy :: "json \<Rightarrow> bool" where
  "truthy JUndef = False"
| "truthy JNull = False"
| "truthy (JBool b) = b"
| "truthy (JNum n) = (n \<noteq> 0)"
| "truthy (JStr s) = (s \<noteq> [])"
| "truthy (JArr xs) = True"
| "truthy (JObj kvs) = True"

definition nullish :: "json \<Rightarrow> bool" where
  "nullish j = (j = JUndef \<or> j = JNull)"

text \<open>
  \<open>String(v)\<close>, as string concatenation and the use of a value as a property key
  apply it. An array is joined with commas, \<open>undefined\<close> and \<open>null\<close> elements giving
  the empty string. An object gives \<open>[object Object]\<close> through the inherited
  \<open>toString\<close>; when it has an own property \<open>toString\<close> (whose value, being data, cannot be
  called) the conversion throws a \<open>TypeError\<close>.
\<close>

definition show_digit :: "nat \<Rightarrow> char" where
  "show_digit d = char_of (48 + d)"

fun show_nat :: "nat \<Rightarrow> string" where
  "show_nat n = (if n < 10 then [show_digit n] else show_nat (n div 10) @ [show_digit (n mod 10)])"

declare show_nat.simps [simp del]

definition show_int :: "int \<Rightarrow> string" where
  "show_int n = (if n < 0 then ''-'' @ show_nat (nat (- n)) else show_nat (nat n))"

fun to_string :: "json \<Rightarrow> error + string"
  and elems_string :: "json list \<Rightarrow> error + string" where
  "to_string JUndef = Inr ''undefined''"
| "to_string JNull = Inr ''null''"
| "to_string (JBool b) = Inr (if b then ''true'' else ''false'')"
| "to_string (JNum n) = Inr (show_int (sint n))"
| "to_string (JStr s) = Inr s"
| "to_string (JArr xs) = elems_string xs"
| "to_string (JObj kvs) =
     (if ''toString'' \<in> set (map fst kvs) then Inl TypeError else Inr ''[object Object]'')"
| "elems_string [] = Inr []"
| "elems_string (x # xs) =
     (case (if nullish x then Inr [] else to_string x) of
        Inl e \<Rightarrow> Inl e
      | Inr a \<Rightarrow>
          if xs = [] then Inr a
          else (case elems_string xs of Inl e \<Rightarrow> Inl e | Inr b \<Rightarrow> Inr (a @ '','' @ b)))"

section \<open>The Kripke model\<close>

text \<open>
  \<open>_states\<close> is an array whose slots hold a state object or \<open>null\<close>. A state has an
  \<open>assignment\<close> (an object created by \<open>{}\<close>; its own properties are kept here in
  insertion order) and \<open>successors\<close>: a \<open>Map\<close> from agent to an array of state indices when the
  state was made by \<open>addState\<close>, the plain object \<open>{}\<close> when it was made by
  \<open>loadFromModelString\<close>. A \<open>Map\<close> keeps its keys in insertion order. Agents are strings.
\<close>

datatype succs = SMap "(string \<times> nat list) list" | SObj

record state =
  assignment :: "(string \<times> json) list"
  successors :: succs

type_synonym states = "state option list"

text \<open>\<open>_states[i]\<close>: \<open>None\<close> is \<open>null\<close> (a removed state) or \<open>undefined\<close> (out of range).\<close>

definition nth_state :: "'a option list \<Rightarrow> nat \<Rightarrow> 'a option" where
  "nth_state S i = (if i < length S then S ! i else None)"

text \<open>
  \<open>Map.prototype.has/get/set\<close>. The key handed to \<open>has\<close> and \<open>get\<close> is any value:
  \<open>None\<close> stands for one that is no agent string (\<open>undefined\<close>, \<open>null\<close>, a state
  object), which no \<open>Map\<close> of this model has as a key.
\<close>

definition map_get :: "(string \<times> nat list) list \<Rightarrow> string option \<Rightarrow> nat list option" where
  "map_get kv agent = (case agent of None \<Rightarrow> None | Some a \<Rightarrow> map_of kv a)"

definition map_has :: "(string \<times> nat list) list \<Rightarrow> string option \<Rightarrow> bool" where
  "map_has kv agent = (map_get kv agent \<noteq> None)"

fun map_set :: "(string \<times> nat list) list \<Rightarrow> string \<Rightarrow> nat list \<Rightarrow> (string \<times> nat list) list" where
  "map_set [] a L = [(a, L)]"
| "map_set ((k, v) # kv) a L = (if k = a then (k, L) # kv else (k, v) # map_set kv a L)"

subsection \<open>addState, addTransition, removeTransition, removeState\<close>

text \<open>
  An object made by \<open>{}\<close> inherits from \<open>Object.prototype\<close>. Writing the key
  \<open>__proto__\<close> with a value that is no object runs the inherited setter, which ignores it;
  every other key becomes (or updates) an own property. \<open>delete\<close> removes an own property.
\<close>

fun obj_update :: "(string \<times> json) list \<Rightarrow> string \<Rightarrow> json \<Rightarrow> (string \<times> json) list" where
  "obj_update [] k v = [(k, v)]"
| "obj_update ((k', v') # kvs) k v = (if k' = k then (k', v) # kvs else (k', v') # obj_update kvs k v)"

definition obj_set :: "(string \<times> json) list \<Rightarrow> string \<Rightarrow> json \<Rightarrow> (string \<times> json) list" where
  "obj_set kvs k v = (if k = ''__proto__'' then kvs else obj_update kvs k v)"

definition obj_delete :: "(string \<times> json) list \<Rightarrow> string \<Rightarrow> (string \<times> json) list" where
  "obj_delete kvs k = filter (\<lambda>(k', v). k' \<noteq> k) kvs"

text \<open>
  \<open>for (var propvar in assignment) if (assignment[propvar] === true) ...\<close>. The
  argument is the list of the object's properties in the order \<open>for ... in\<close> visits them.
\<close>

fun processAssignment :: "(string \<times> json) list \<Rightarrow> (string \<times> json) list \<Rightarrow> (string \<times> json) list" where
  "processAssignment [] acc = acc"
| "processAssignment ((propvar, v) # rest) acc =
     processAssignment rest (if v = JBool True then obj_set acc propvar v else acc)"

definition addState :: "states \<Rightarrow> (string \<times> json) list \<Rightarrow> states" where
  "addState S asg = S @ [Some \<lparr>assignment = processAssignment asg [], successors = SMap []\<rparr>]"

text \<open>
  \<open>agentList.forEach\<close> of \<open>addTransition\<close>, on the successors \<open>s\<close> of the source. On a
  plain object \<open>s.has\<close> is \<open>undefined\<close> and the call throws a \<open>TypeError\<close>.
\<close>

fun addAgents :: "succs \<Rightarrow> nat \<Rightarrow> string list \<Rightarrow> error + succs" where
  "addAgents s target [] = Inr s"
| "addAgents SObj target (agent # rest) = Inl TypeError"
| "addAgents (SMap kv) target (agent # rest) =
     (case map_get kv (Some agent) of
        Some L \<Rightarrow> addAgents (SMap (map_set kv agent (L @ [target]))) target rest
      | None \<Rightarrow> addAgents (SMap (map_set kv agent [target])) target rest)"

definition addTransition :: "states \<Rightarrow> nat \<Rightarrow> nat \<Rightarrow> string list \<Rightarrow> error + states" where
  "addTransition S source target agentList =
     (case nth_state S source of
        None \<Rightarrow> Inr S
      | Some st \<Rightarrow>
          (case nth_state S target of
             None \<Rightarrow> Inr S
           | Some _ \<Rightarrow>
               (case addAgents (successors st) target agentList of
                  Inl e \<Rightarrow> Inl e
                | Inr s \<Rightarrow> Inr (S[source := Some (st\<lparr>successors := s\<rparr>)]))))"

text \<open>\<open>index = L.indexOf(target); if (index !== -1) L.splice(index, 1)\<close>\<close>

fun splice_first :: "nat \<Rightarrow> nat list \<Rightarrow> nat list" where
  "splice_first target [] = []"
| "splice_first target (x # xs) = (if x = target then xs else x # splice_first target xs)"

text \<open>
  \<open>agentList.forEach\<close> of \<open>removeTransition\<close>. The elements of \<open>agentList\<close> are
  whatever the caller passes: \<open>Some a\<close> for the agent string \<open>a\<close>, \<open>None\<close> for a value
  that is no agent string.
\<close>

fun removeAgents :: "succs \<Rightarrow> nat \<Rightarrow> string option list \<Rightarrow> error + succs" where
  "removeAgents s target [] = Inr s"
| "removeAgents SObj target (agent # rest) = Inl TypeError"
| "removeAgents (SMap kv) target (agent # rest) =
     (case (agent, map_get kv agent) of
        (Some a, Some L) \<Rightarrow> removeAgents (SMap (map_set kv a (splice_first target L))) target rest
      | _ \<Rightarrow> removeAgents (SMap kv) target rest)"

definition removeTransition :: "states \<Rightarrow> nat \<Rightarrow> nat \<Rightarrow> string option list \<Rightarrow> error + states" where
  "removeTransition S source target agentList =
     (case nth_state S source of
        None \<Rightarrow> Inr S
      | Some st \<Rightarrow>
          (case removeAgents (successors st) target agentList of
             Inl e \<Rightarrow> Inl e
           | Inr s \<Rightarrow> Inr (S[source := Some (st\<lparr>successors := s\<rparr>)])))"

text \<open>
  \<open>removeState\<close>: \<open>_states.forEach(function (source, index, agent) { if (source)
  self.removeTransition(index, state, agent); })\<close>. The third argument \<open>forEach\<close> hands
  to its callback is the array it iterates, so the \<open>agentList\<close> that
  \<open>removeTransition\<close> receives is \<open>_states\<close> itself: its elements are state objects and
  \<open>null\<close>, none of them an agent string. A \<open>TypeError\<close> thrown on the way leaves the
  states as they are at that moment, the slot already \<open>null\<close>: the result is the states
  after the call and the error thrown, if any.
\<close>

fun removeState_forEach :: "states \<Rightarrow> nat \<Rightarrow> nat list \<Rightarrow> states \<times> error option" where
  "removeState_forEach S st [] = (S, None)"
| "removeState_forEach S st (index # rest) =
     (case nth_state S index of
        None \<Rightarrow> removeState_forEach S st rest
      | Some source \<Rightarrow>
          (case removeTransition S index st (map (\<lambda>x. None) S) of
             Inl e \<Rightarrow> (S, Some e)
           | Inr S' \<Rightarrow> removeState_forEach S' st rest))"

definition removeState :: "states \<Rightarrow> nat \<Rightarrow> states \<times> error option" where
  "removeState S st =
     (case nth_state S st of
        None \<Rightarrow> (S, None)
      | Some _ \<Rightarrow> removeState_forEach (S[st := None]) st [0..<length S])"

subsection \<open>editState, getStates, valuation\<close>

text \<open>
  \<open>for (var propvar in assignment) if (assignment[propvar] === true)
  stateAssignment[propvar] = true; else if (assignment[propvar] === false) delete
  stateAssignment[propvar];\<close>
\<close>

fun editAssignment :: "(string \<times> json) list \<Rightarrow> (string \<times> json) list \<Rightarrow> (string \<times> json) list" where
  "editAssignment [] stateAssignment = stateAssignment"
| "editAssignment ((propvar, v) # rest) stateAssignment =
     editAssignment rest
       (if v = JBool True then obj_set stateAssignment propvar (JBool True)
        else if v = JBool False then obj_delete stateAssignment propvar
        else stateAssignment)"

definition editState :: "states \<Rightarrow> nat \<Rightarrow> (string \<times> json) list \<Rightarrow> states" where
  "editState S st asg =
     (case nth_state S st of
        None \<Rightarrow> S
      | Some s \<Rightarrow> S[st := Some (s\<lparr>assignment := editAssignment asg (assignment s)\<rparr>)])"

definition getStates :: "states \<Rightarrow> (string \<times> json) list option list" where
  "getStates S = map (map_option assignment) S"

text \<open>
  The properties every object made by \<open>{}\<close> inherits from \<open>Object.prototype\<close>. Their
  values are functions (for \<open>__proto__\<close>, the prototype object), all truthy.
\<close>

definition object_prototype_names :: "string list" where
  "object_prototype_names =
     [''constructor'', ''__defineGetter__'', ''__defineSetter__'', ''hasOwnProperty'',
      ''__lookupGetter__'', ''__lookupSetter__'', ''isPrototypeOf'', ''propertyIsEnumerable'',
      ''toString'', ''valueOf'', ''__proto__'', ''toLocaleString'']"

text \<open>\<open>!!obj[k]\<close>: an own property is read first, an inherited one otherwise.\<close>

definition obj_truthy :: "(string \<times> json) list \<Rightarrow> string \<Rightarrow> bool" where
  "obj_truthy kvs k =
     (case map_of kvs k of
        Some v \<Rightarrow> truthy v
      | None \<Rightarrow> k \<in> set object_prototype_names)"

text \<open>
  \<open>valuation\<close>: the state is looked up first; \<open>propvar\<close> is then used as a property
  key, which converts it to a string.
\<close>

definition valuation :: "states \<Rightarrow> json \<Rightarrow> nat \<Rightarrow> error + bool" where
  "valuation S propvar st =
     (case nth_state S st of
        None \<Rightarrow> Inl (StateNotFound st)
      | Some s \<Rightarrow>
          (case to_string propvar of
             Inl e \<Rightarrow> Inl e
           | Inr k \<Rightarrow> Inr (obj_truthy (assignment s) k)))"

subsection \<open>getSuccessorsOf and the closure getAllSuccessorsOf\<close>

text \<open>
  \<open>getSuccessorsOf\<close>: \<open>Inr None\<close> is \<open>undefined\<close>. On a state restored by
  \<open>loadFromModelString\<close> the successors are a plain object, \<open>successors.get\<close> is
  \<open>undefined\<close> and the call throws.
\<close>

definition getSuccessorsOf :: "states \<Rightarrow> nat \<Rightarrow> string option \<Rightarrow> error + nat list option" where
  "getSuccessorsOf S source agent =
     (case nth_state S source of
        None \<Rightarrow> Inr None
      | Some st \<Rightarrow>
          (case successors st of
             SObj \<Rightarrow> Inl TypeError
           | SMap kv \<Rightarrow> Inr (map_get kv agent)))"

text \<open>
  \<open>getSuccessorsOfOld\<close> returns the iterator \<open>successors.values()\<close>, which its callers
  turn into an array with \<open>Array.from\<close>: one successor array for each agent, in the
  order of the \<open>Map\<close>.
\<close>

definition getSuccessorsOfOld :: "states \<Rightarrow> nat \<Rightarrow> error + nat list list option" where
  "getSuccessorsOfOld S source =
     (case nth_state S source of
        None \<Rightarrow> Inr None
      | Some st \<Rightarrow>
          (case successors st of
             SObj \<Rightarrow> Inl TypeError
           | SMap kv \<Rightarrow> Inr (Some (map snd kv))))"

definition getAgents :: "states \<Rightarrow> nat \<Rightarrow> error + string list option" where
  "getAgents S source =
     (case nth_state S source of
        None \<Rightarrow> Inr None
      | Some st \<Rightarrow>
          (case successors st of
             SObj \<Rightarrow> Inl TypeError
           | SMap kv \<Rightarrow> Inr (Some (map fst kv))))"

fun push_agents :: "string list \<Rightarrow> string list \<Rightarrow> string list" where
  "push_agents L [] = L"
| "push_agents L (key # keys) = push_agents (if key \<in> set L then L else L @ [key]) keys"

fun getAllAgents_forEach :: "states \<Rightarrow> string list \<Rightarrow> error + string list" where
  "getAllAgents_forEach [] L = Inr L"
| "getAllAgents_forEach (None # S) L = getAllAgents_forEach S L"
| "getAllAgents_forEach (Some st # S) L =
     (case successors st of
        SObj \<Rightarrow> Inl TypeError
      | SMap kv \<Rightarrow> getAllAgents_forEach S (push_agents L (map fst kv)))"

definition getAllAgents :: "states \<Rightarrow> error + string list" where
  "getAllAgents S = getAllAgents_forEach S []"

text \<open>Every index that occurs in a successor array of the model.\<close>

definition state_targets :: "state option \<Rightarrow> nat list" where
  "state_targets so =
     (case so of
        None \<Rightarrow> []
      | Some st \<Rightarrow> (case successors st of SObj \<Rightarrow> [] | SMap kv \<Rightarrow> concat (map snd kv)))"

definition all_targets :: "states \<Rightarrow> nat list" where
  "all_targets S = concat (map state_targets S)"

lemma map_get_targets: "map_get kv agent = Some L \<Longrightarrow> set L \<subseteq> set (concat (map snd kv))"
proof -
  assume h: "map_get kv agent = Some L"
  then obtain a where "map_of kv a = Some L"
    by (auto simp: map_get_def split: option.splits)
  then have "(a, L) \<in> set kv" by (rule map_of_SomeD)
  then have "L \<in> set (map snd kv)" by force
  then show ?thesis by auto
qed

lemma getSuccessorsOf_targets:
  assumes "getSuccessorsOf S s agent = Inr (Some L)"
  shows "set L \<subseteq> set (all_targets S)"
proof -
  from assms obtain st kv where st: "nth_state S s = Some st" "successors st = SMap kv"
    and L: "map_get kv agent = Some L"
    by (auto simp: getSuccessorsOf_def split: option.splits succs.splits)
  from st(1) have "Some st \<in> set S"
    by (metis nth_mem nth_state_def option.distinct(1))
  moreover have "set L \<subseteq> set (state_targets (Some st))"
    using map_get_targets [OF L] st(2) by (simp add: state_targets_def)
  ultimately show ?thesis by (auto simp: all_targets_def)
qed

text \<open>
  The loop of \<open>getAllSuccessorsOf\<close>: \<open>C\<close> is the queue, \<open>V\<close> the visited list.
  \<open>while (C[0])\<close> stops when the queue is empty (\<open>C[0]\<close> is \<open>undefined\<close>) and also when
  its head is the index \<open>0\<close>, which is falsy. The first argument is the \<open>_states\<close> of
  the object the identifier \<open>model\<close> is bound to.
\<close>

function closure_loop :: "states \<Rightarrow> string option \<Rightarrow> nat list \<Rightarrow> nat list \<Rightarrow> error + nat list" where
  "closure_loop model agent C V =
     (case C of
        [] \<Rightarrow> Inr V
      | s # C' \<Rightarrow>
          if s = 0 then Inr V
          else if s \<notin> set V then
            (case getSuccessorsOf model s agent of
               Inl e \<Rightarrow> Inl e
             | Inr None \<Rightarrow> closure_loop model agent C' (V @ [s])
             | Inr (Some L) \<Rightarrow> closure_loop model agent (C' @ L) (V @ [s]))
          else closure_loop model agent C' V)"
  by pat_completeness auto

termination
proof (relation "measures [\<lambda>(model, agent, C, V). card ((set C \<union> set (all_targets model)) - set V),
                           \<lambda>(model, agent, C, V). length C]", goal_cases)
  case 1
  show ?case by simp
next
  case (2 model agent C V s C')
  have "(set C' \<union> set (all_targets model)) - set (V @ [s])
          \<subset> (set C \<union> set (all_targets model)) - set V"
    using 2 by auto
  then have "card ((set C' \<union> set (all_targets model)) - set (V @ [s]))
               < card ((set C \<union> set (all_targets model)) - set V)"
    by (intro psubset_card_mono) auto
  then show ?case by simp
next
  case (3 model agent C V s C' x L)
  have "set L \<subseteq> set (all_targets model)"
    using 3 getSuccessorsOf_targets by simp
  then have "(set (C' @ L) \<union> set (all_targets model)) - set (V @ [s])
          \<subset> (set C \<union> set (all_targets model)) - set V"
    using 3 by auto
  then have "card ((set (C' @ L) \<union> set (all_targets model)) - set (V @ [s]))
               < card ((set C \<union> set (all_targets model)) - set V)"
    by (intro psubset_card_mono) auto
  then show ?case by simp
next
  case (4 model agent C V s C')
  have "(set C' \<union> set (all_targets model)) - set V \<subseteq> (set C \<union> set (all_targets model)) - set V"
    using 4 by auto
  then have "card ((set C' \<union> set (all_targets model)) - set V)
               \<le> card ((set C \<union> set (all_targets model)) - set V)"
    by (intro card_mono) auto
  then show ?case using 4 by auto
qed

declare closure_loop.simps [simp del]

text \<open>
  \<open>getAllSuccessorsOf\<close>, \<open>gAccessibility\<close> and \<open>gAccessStrict\<close> never use \<open>this\<close>:
  they call \<open>model.getSuccessorsOf\<close> and \<open>model.getAllSuccessorsOf\<close>, and the library
  declares no \<open>model\<close>. Their first argument is what that identifier is bound to by the
  page that loads the library: \<open>Some S\<close> for a \<open>Model\<close> whose \<open>_states\<close> is \<open>S\<close>,
  \<open>None\<close> when nothing binds it, and then evaluating it throws a \<open>ReferenceError\<close>.
\<close>

definition getAllSuccessorsOf :: "states option \<Rightarrow> nat \<Rightarrow> string option \<Rightarrow> error + nat list" where
  "getAllSuccessorsOf model st agent =
     (case model of
        None \<Rightarrow> Inl ReferenceError
      | Some S \<Rightarrow>
          (case getSuccessorsOf S st agent of
             Inl e \<Rightarrow> Inl e
           | Inr None \<Rightarrow> Inr []
           | Inr (Some C) \<Rightarrow> closure_loop S agent C []))"

text \<open>
  \<open>gAccessibility\<close> and \<open>gAccessStrict\<close> receive a list of formula nodes and read
  \<open>agent.prop\<close> of each. Reading a property of \<open>undefined\<close> or \<open>null\<close> throws; the
  keys the library reads from a formula node are the node tags, \<open>length\<close>, \<open>0\<close> and
  \<open>1\<close>, none of which an object, an array or a string inherits under another meaning.
\<close>

definition is_digit :: "char \<Rightarrow> bool" where
  "is_digit c = (c \<in> set ''0123456789'')"

fun nat_of_digits :: "string \<Rightarrow> nat \<Rightarrow> nat" where
  "nat_of_digits [] acc = acc"
| "nat_of_digits (c # cs) acc = nat_of_digits cs (10 * acc + (of_char c - 48))"

text \<open>
  A key is an array index when it is the canonical decimal numeral of a number. An array
  or a string has fewer than \<open>2^32\<close> elements, so its \<open>length\<close> is a number of the
  model.
\<close>

definition index_of_key :: "string \<Rightarrow> nat option" where
  "index_of_key k =
     (if k \<noteq> [] \<and> list_all is_digit k \<and> (k = ''0'' \<or> hd k \<noteq> CHR ''0'')
      then Some (nat_of_digits k 0) else None)"

fun get :: "json \<Rightarrow> string \<Rightarrow> json" where
  "get (JObj kvs) k = (case map_of kvs k of Some v \<Rightarrow> v | None \<Rightarrow> JUndef)"
| "get (JArr xs) k =
     (if k = ''length'' then JNum (of_nat (length xs))
      else case index_of_key k of
             Some i \<Rightarrow> if i < length xs then xs ! i else JUndef
           | None \<Rightarrow> JUndef)"
| "get (JStr s) k =
     (if k = ''length'' then JNum (of_nat (length s))
      else case index_of_key k of
             Some i \<Rightarrow> if i < length s then JStr [s ! i] else JUndef
           | None \<Rightarrow> JUndef)"
| "get j k = JUndef"

definition getE :: "json \<Rightarrow> string \<Rightarrow> error + json" where
  "getE j k = (if nullish j then Inl TypeError else Inr (get j k))"

text \<open>The value as a \<open>Map\<close> key: only a string can be equal to an agent.\<close>

fun agent_key :: "json \<Rightarrow> string option" where
  "agent_key (JStr s) = Some s"
| "agent_key j = None"

text \<open>
  \<open>list.forEach(function (agent) { S.push(model.getAllSuccessorsOf(state, agent.prop)); })\<close>:
  \<open>model\<close> is evaluated before \<open>agent.prop\<close>.
\<close>

fun collect_closures :: "states option \<Rightarrow> nat \<Rightarrow> json list \<Rightarrow> error + nat list list" where
  "collect_closures model st [] = Inr []"
| "collect_closures model st (agent # rest) =
     (case model of
        None \<Rightarrow> Inl ReferenceError
      | Some _ \<Rightarrow>
          (case getE agent ''prop'' of
             Inl e \<Rightarrow> Inl e
           | Inr a \<Rightarrow>
               (case getAllSuccessorsOf model st (agent_key a) of
                  Inl e \<Rightarrow> Inl e
                | Inr V \<Rightarrow>
                    (case collect_closures model st rest of
                       Inl e \<Rightarrow> Inl e
                     | Inr S \<Rightarrow> Inr (V # S)))))"

text \<open>\<open>array.forEach(function (s) { if (F.indexOf(s) === -1) F.push(s); })\<close>\<close>

fun push_new :: "nat list \<Rightarrow> nat list \<Rightarrow> nat list" where
  "push_new F [] = F"
| "push_new F (s # array) = push_new (if s \<in> set F then F else F @ [s]) array"

definition gAccessibility :: "states option \<Rightarrow> nat \<Rightarrow> json list \<Rightarrow> error + nat list" where
  "gAccessibility model st list =
     (case collect_closures model st list of
        Inl e \<Rightarrow> Inl e
      | Inr S \<Rightarrow> Inr (foldl push_new [] S))"

text \<open>
  \<open>gAccessStrict\<close>: \<open>F = S[0]\<close> is \<open>undefined\<close> for an empty list, and is then returned
  as it is (\<open>Inr None\<close>), the loop over \<open>S\<close> having nothing to do.
\<close>

definition gAccessStrict :: "states option \<Rightarrow> nat \<Rightarrow> json list \<Rightarrow> error + nat list option" where
  "gAccessStrict model st list =
     (case collect_closures model st list of
        Inl e \<Rightarrow> Inl e
      | Inr [] \<Rightarrow> Inr None
      | Inr (F # S) \<Rightarrow>
          Inr (Some (foldl (\<lambda>F array. filter (\<lambda>s. s \<in> set array) F) F (F # S))))"

subsection \<open>The model string\<close>

text \<open>\<open>Array.prototype.join()\<close> with its default separator, and \<open>String.prototype.split\<close>.\<close>

fun join :: "string list \<Rightarrow> string" where
  "join [] = []"
| "join [x] = x"
| "join (x # y # zs) = x @ '','' @ join (y # zs)"

fun split :: "char \<Rightarrow> string \<Rightarrow> string list" where
  "split c [] = [[]]"
| "split c (x # xs) =
     (if x = c then [] # split c xs
      else (case split c xs of [] \<Rightarrow> [[x]] | y # ys \<Rightarrow> (x # y) # ys))"

text \<open>
  \<open>for (var agent in state.successors)\<close> enumerates the enumerable string-keyed
  properties of the object. The entries of a \<open>Map\<close> are not properties of it, and the
  plain object a restored state holds never receives one: in both cases there is nothing
  to enumerate.
\<close>

fun for_in_keys :: "succs \<Rightarrow> string list" where
  "for_in_keys (SMap kv) = []"
| "for_in_keys SObj = []"

text \<open>
  \<open>Object.keys\<close>: the names that are array indices (canonical numerals below
  \<open>2^32 - 1\<close>) come first, in ascending numeric order, then the other names in
  insertion order.
\<close>

definition array_index :: "string \<Rightarrow> nat option" where
  "array_index k =
     (case index_of_key k of
        None \<Rightarrow> None
      | Some n \<Rightarrow> if n < 4294967295 then Some n else None)"

definition own_keys :: "(string \<times> json) list \<Rightarrow> string list" where
  "own_keys kvs =
     sort_key (\<lambda>k. case array_index k of Some n \<Rightarrow> n | None \<Rightarrow> 0)
       (filter (\<lambda>k. array_index k \<noteq> None) (map fst kvs))
     @ filter (\<lambda>k. array_index k = None) (map fst kvs)"

text \<open>\<open>agent + state.successors[agent].join()\<close>, for a key the enumeration yields.\<close>

definition successors_text :: "succs \<Rightarrow> string \<Rightarrow> string" where
  "successors_text s agent =
     agent @ (case s of
                SMap kv \<Rightarrow> (case map_get kv (Some agent) of Some L \<Rightarrow> join (map show_nat L) | None \<Rightarrow> [])
              | SObj \<Rightarrow> [])"

definition state_string :: "state option \<Rightarrow> string" where
  "state_string so =
     (case so of
        None \<Rightarrow> '';''
      | Some st \<Rightarrow>
          ''A'' @ join (own_keys (assignment st)) @ ''S''
            @ concat (map (successors_text (successors st)) (for_in_keys (successors st)))
            @ '';'')"

definition getModelString :: "states \<Rightarrow> string" where
  "getModelString S = concat (map state_string S)"

text \<open>
  Regular expressions, matched by derivatives. \<open>regex.test\<close> with \<open>^\<close> and \<open>$\<close> at
  the ends asks whether the whole string is in the language.
\<close>

datatype rx = Zero | One | Cls "char list" | Seq rx rx | Alt rx rx | Star rx

definition Plus :: "rx \<Rightarrow> rx" where
  "Plus r = Seq r (Star r)"

fun nullable :: "rx \<Rightarrow> bool" where
  "nullable Zero = False"
| "nullable One = True"
| "nullable (Cls cs) = False"
| "nullable (Seq r s) = (nullable r \<and> nullable s)"
| "nullable (Alt r s) = (nullable r \<or> nullable s)"
| "nullable (Star r) = True"

fun deriv :: "char \<Rightarrow> rx \<Rightarrow> rx" where
  "deriv c Zero = Zero"
| "deriv c One = Zero"
| "deriv c (Cls cs) = (if c \<in> set cs then One else Zero)"
| "deriv c (Seq r s) =
     (if nullable r then Alt (Seq (deriv c r) s) (deriv c s) else Seq (deriv c r) s)"
| "deriv c (Alt r s) = Alt (deriv c r) (deriv c s)"
| "deriv c (Star r) = Seq (deriv c r) (Star r)"

fun matches :: "rx \<Rightarrow> string \<Rightarrow> bool" where
  "matches r [] = nullable r"
| "matches r (c # cs) = matches (deriv c r) cs"

definition word_char :: rx where
  "word_char = Cls ''ABCDEFGHIJKLMNOPQRSTUVWXYZabcdefghijklmnopqrstuvwxyz0123456789_''"

definition digit_char :: rx where
  "digit_char = Cls ''0123456789''"

text \<open>\<open>/^(?:;|(?:A|A(?:\w+,)*\w+)(?:S|S(?:\d+,)*\d+);)+$/\<close>\<close>

definition model_regex :: rx where
  "model_regex =
     Plus (Alt (Cls '';'')
            (Seq (Alt (Cls ''A'')
                      (Seq (Cls ''A'') (Seq (Star (Seq (Plus word_char) (Cls '','')))
                                            (Plus word_char))))
                 (Seq (Alt (Cls ''S'')
                           (Seq (Cls ''S'') (Seq (Star (Seq (Plus digit_char) (Cls '','')))
                                                 (Plus digit_char))))
                      (Cls '';''))))"

text \<open>
  \<open>state.match(/A(.*)S(.*)/)\<close>: the match starts at the first \<open>A\<close>; the first group is
  greedy, so it ends before the last \<open>S\<close> after that \<open>A\<close>, and the second group is the
  rest. (No line terminator, which \<open>.\<close> would refuse, occurs in a string that passed the
  test.) \<open>None\<close> is \<open>null\<close>: no \<open>A\<close> with an \<open>S\<close> after it.
\<close>

definition match_AS :: "string \<Rightarrow> (string \<times> string) option" where
  "match_AS token =
     (case dropWhile (\<lambda>c. c \<noteq> CHR ''A'') token of
        [] \<Rightarrow> None
      | a # rest \<Rightarrow>
          if CHR ''S'' \<in> set rest
          then (let after = rev (takeWhile (\<lambda>c. c \<noteq> CHR ''S'') (rev rest))
                in Some (take (length rest - length after - 1) rest, after))
          else None)"

text \<open>
  The first loop of \<open>loadFromModelString\<close>: it fills the new \<open>_states\<close> and
  \<open>successorLists\<close>. Each restored state holds \<open>successors: {}\<close>, a plain object.
\<close>

fun restore_states ::
  "string list \<Rightarrow> states \<Rightarrow> nat list option list \<Rightarrow> (states \<times> nat list option list) \<times> error option" where
  "restore_states [] S SL = ((S, SL), None)"
| "restore_states (token # rest) S SL =
     (if token = [] then restore_states rest (S @ [None]) (SL @ [None])
      else case match_AS token of
             None \<Rightarrow> ((S, SL), Some TypeError)
           | Some (ps, ss) \<Rightarrow>
               restore_states rest
                 (S @ [Some \<lparr>assignment =
                                foldl (\<lambda>asg propvar. obj_set asg propvar (JBool True)) []
                                  (if ps = [] then [] else split CHR '','' ps),
                             successors = SObj\<rparr>])
                 (SL @ [Some (map (\<lambda>succState. nat_of_digits succState 0)
                                (if ss = [] then [] else split CHR '','' ss))]))"

text \<open>
  The second loop calls \<open>self.addTransition(source, target, agent)\<close> for every target.
  No \<open>agent\<close> is declared in that scope (the function was left as it was when agents
  were added), so in strict mode evaluating the argument throws a \<open>ReferenceError\<close> at
  the first target there is. The states are then the restored ones, without transitions.
  A string that fails the test leaves the model as it is.
\<close>

definition loadFromModelString :: "states \<Rightarrow> string \<Rightarrow> states \<times> error option" where
  "loadFromModelString S modelString =
     (if \<not> matches model_regex modelString then (S, None)
      else case restore_states (butlast (split CHR '';'' modelString)) [] [] of
             ((S', SL), Some e) \<Rightarrow> (S', Some e)
           | ((S', SL), None) \<Rightarrow>
               if list_ex (\<lambda>successors. case successors of None \<Rightarrow> False | Some ts \<Rightarrow> ts \<noteq> []) SL
               then (S', Some ReferenceError)
               else (S', None))"

section \<open>Formulas\<close>

text \<open>
  A formula is a JSON tree: an object with one of the keys \<open>prop\<close>, \<open>neg\<close>, \<open>nec\<close>,
  \<open>poss\<close> (whose value is a name or a formula) or \<open>conj\<close>, \<open>disj\<close>, \<open>impl\<close>,
  \<open>equi\<close>, \<open>know\<close>, \<open>group\<close>, \<open>eknow\<close>, \<open>distrib\<close>, \<open>common\<close> (whose value is
  an array of two formulas). The functions below read a node by testing these keys in a
  fixed order, each function in its own.
\<close>

text \<open>The size of a value, for the recursion through property reads.\<close>

fun jsz :: "json \<Rightarrow> nat" where
  "jsz (JArr xs) = Suc (sum_list (map jsz xs))"
| "jsz (JObj kvs) = Suc (sum_list (map (\<lambda>kv. jsz (snd kv)) kvs))"
| "jsz j = 0"

text \<open>A key that is neither \<open>length\<close> nor an array index: only an object can hold it.\<close>

definition is_tag :: "string \<Rightarrow> bool" where
  "is_tag k = (k \<noteq> ''length'' \<and> index_of_key k = None)"

lemma jsz_nth: "i < length xs \<Longrightarrow> jsz (xs ! i) < Suc (sum_list (map jsz xs))"
  by (metis elem_le_sum_list le_imp_less_Suc length_map nth_map)

lemma jsz_map_of:
  assumes "map_of kvs k = Some v"
  shows "jsz v < Suc (sum_list (map (\<lambda>kv. jsz (snd kv)) kvs))"
proof -
  from assms have "(k, v) \<in> set kvs" by (rule map_of_SomeD)
  then have "jsz v \<in> set (map (\<lambda>kv. jsz (snd kv)) kvs)" by force
  then have "jsz v \<le> sum_list (map (\<lambda>kv. jsz (snd kv)) kvs)"
    by (simp add: member_le_sum_list)
  then show ?thesis by simp
qed

lemma jsz_get_le: "jsz (get j k) \<le> jsz j"
proof (cases j)
  case (JArr xs)
  then show ?thesis using jsz_nth [of _ xs] by (auto simp: less_imp_le split: option.splits)
next
  case (JObj kvs)
  then show ?thesis using jsz_map_of [of kvs k] by (auto simp: less_imp_le split: option.splits)
qed (auto split: option.splits)

lemma jsz_get_tag: "is_tag k \<Longrightarrow> truthy (get j k) \<Longrightarrow> jsz (get j k) < jsz j"
proof (cases j)
  case (JObj kvs)
  assume "truthy (get j k)"
  then show ?thesis using JObj jsz_map_of [of kvs k] by (auto split: option.splits)
qed (auto simp: is_tag_def split: option.splits)

lemma jsz_get_get: "is_tag k \<Longrightarrow> truthy (get j k) \<Longrightarrow> jsz (get (get j k) k') < jsz j"
  using jsz_get_tag [of k j] jsz_get_le [of "get j k" k'] by simp

lemma is_tag_names [simp]:
  "is_tag ''prop''" "is_tag ''neg''" "is_tag ''nec''" "is_tag ''poss''" "is_tag ''conj''"
  "is_tag ''disj''" "is_tag ''impl''" "is_tag ''equi''" "is_tag ''know''" "is_tag ''group''"
  "is_tag ''eknow''" "is_tag ''distrib''" "is_tag ''common''"
  by (simp_all add: is_tag_def index_of_key_def is_digit_def)

subsection \<open>The constructor Wff\<close>

text \<open>\<open>l + a\<close> and \<open>l + a + m + b + r\<close>, the operands evaluated and converted from the left.\<close>

definition str_unary :: "string \<Rightarrow> error + json \<Rightarrow> error + json" where
  "str_unary l a =
     (case a of
        Inl e \<Rightarrow> Inl e
      | Inr va \<Rightarrow> (case to_string va of Inl e \<Rightarrow> Inl e | Inr sa \<Rightarrow> Inr (JStr (l @ sa))))"

definition str_binary :: "string \<Rightarrow> string \<Rightarrow> string \<Rightarrow> error + json \<Rightarrow> error + json \<Rightarrow> error + json" where
  "str_binary l m r a b =
     (case a of
        Inl e \<Rightarrow> Inl e
      | Inr va \<Rightarrow>
          (case to_string va of
             Inl e \<Rightarrow> Inl e
           | Inr sa \<Rightarrow>
               (case b of
                  Inl e \<Rightarrow> Inl e
                | Inr vb \<Rightarrow>
                    (case to_string vb of
                       Inl e \<Rightarrow> Inl e
                     | Inr sb \<Rightarrow> Inr (JStr (l @ sa @ m @ sb @ r))))))"

text \<open>\<open>json.conj && json.conj.length === 2\<close>\<close>

definition is_pair :: "json \<Rightarrow> bool" where
  "is_pair c = (truthy c \<and> get c ''length'' = JNum 2)"

text \<open>
  \<open>_jsonToASCII\<close>. A \<open>prop\<close> node returns the value of \<open>json.prop\<close> as it is, which
  need not be a string. The section sign of the \<open>common\<close> operator is the character
  \<open>0xA7\<close>.
\<close>

function jsonToASCII :: "json \<Rightarrow> error + json" where
  "jsonToASCII json =
     (if nullish json then Inl TypeError
      else if truthy (get json ''prop'') then Inr (get json ''prop'')
      else if truthy (get json ''neg'') then str_unary ''~'' (jsonToASCII (get json ''neg''))
      else if truthy (get json ''nec'') then str_unary ''[]'' (jsonToASCII (get json ''nec''))
      else if truthy (get json ''poss'') then str_unary ''<>'' (jsonToASCII (get json ''poss''))
      else if is_pair (get json ''conj'') then
        str_binary ''('' '' & '' '')'' (jsonToASCII (get (get json ''conj'') ''0''))
                                       (jsonToASCII (get (get json ''conj'') ''1''))
      else if is_pair (get json ''disj'') then
        str_binary ''('' '' | '' '')'' (jsonToASCII (get (get json ''disj'') ''0''))
                                       (jsonToASCII (get (get json ''disj'') ''1''))
      else if is_pair (get json ''impl'') then
        str_binary ''('' '' -> '' '')'' (jsonToASCII (get (get json ''impl'') ''0''))
                                        (jsonToASCII (get (get json ''impl'') ''1''))
      else if is_pair (get json ''equi'') then
        str_binary ''('' '' <-> '' '')'' (jsonToASCII (get (get json ''equi'') ''0''))
                                         (jsonToASCII (get (get json ''equi'') ''1''))
      else if is_pair (get json ''know'') then
        str_binary ''('' '' ? '' '')'' (jsonToASCII (get (get json ''know'') ''0''))
                                       (jsonToASCII (get (get json ''know'') ''1''))
      else if is_pair (get json ''group'') then
        str_binary [] '' , '' [] (jsonToASCII (get (get json ''group'') ''0''))
                                 (jsonToASCII (get (get json ''group'') ''1''))
      else if is_pair (get json ''eknow'') then
        str_binary ''('' '' # '' '')'' (jsonToASCII (get (get json ''eknow'') ''0''))
                                       (jsonToASCII (get (get json ''eknow'') ''1''))
      else if is_pair (get json ''distrib'') then
        str_binary ''('' '' / '' '')'' (jsonToASCII (get (get json ''distrib'') ''0''))
                                       (jsonToASCII (get (get json ''distrib'') ''1''))
      else if is_pair (get json ''common'') then
        str_binary ''('' ([CHR '' '', CHR 0xA7, CHR '' '']) '')''
          (jsonToASCII (get (get json ''common'') ''0''))
          (jsonToASCII (get (get json ''common'') ''1''))
      else Inl InvalidJSON)"
  by pat_completeness auto

termination
  by (relation "measure jsz") (auto simp: is_pair_def jsz_get_tag jsz_get_get)

declare jsonToASCII.simps [simp del]

text \<open>
  The constructor. \<open>typeof asciiOrJSON === 'object'\<close> holds of objects, arrays and
  \<open>null\<close>; any other argument goes to the parser, which is not part of this library and
  is a parameter here. \<open>_asciiToLaTeX\<close> and \<open>_asciiToUnicode\<close> call \<open>ascii.replace\<close>:
  they throw a \<open>TypeError\<close> when \<open>_jsonToASCII\<close> returned a value that is no string,
  and otherwise only substitute substrings, so their results are left out of the record.
\<close>

record wff =
  wff_json :: json
  wff_ascii :: string

fun is_object :: "json \<Rightarrow> bool" where
  "is_object (JArr xs) = True"
| "is_object (JObj kvs) = True"
| "is_object j = False"

definition typeof_object :: "json \<Rightarrow> bool" where
  "typeof_object j = (is_object j \<or> j = JNull)"

definition Wff :: "(json \<Rightarrow> error + json) \<Rightarrow> json \<Rightarrow> error + wff" where
  "Wff parse asciiOrJSON =
     (case (if typeof_object asciiOrJSON then Inr asciiOrJSON else parse asciiOrJSON) of
        Inl e \<Rightarrow> Inl e
      | Inr j \<Rightarrow>
          (case jsonToASCII j of
             Inl e \<Rightarrow> Inl e
           | Inr (JStr s) \<Rightarrow> Inr \<lparr>wff_json = j, wff_ascii = s\<rparr>
           | Inr _ \<Rightarrow> Inl TypeError))"

text \<open>
  The thirteen keys that make a node, by arity. A tree is built exclusively from
  recognised node kinds when its root is a node of some kind and, under every node key
  it carries, there are again such trees: one under a unary key, exactly two under a
  binary key.
\<close>

definition unary_tags :: "string list" where
  "unary_tags = [''neg'', ''nec'', ''poss'']"

definition binary_tags :: "string list" where
  "binary_tags = [''conj'', ''disj'', ''impl'', ''equi'', ''know'', ''group'', ''eknow'',
                  ''distrib'', ''common'']"

definition node_tags :: "string list" where
  "node_tags = ''prop'' # unary_tags @ binary_tags"

lemma is_tag_unary: "k \<in> set unary_tags \<Longrightarrow> is_tag k"
  by (auto simp: unary_tags_def)

lemma is_tag_binary: "k \<in> set binary_tags \<Longrightarrow> is_tag k"
  by (auto simp: binary_tags_def)

function exclusive :: "json \<Rightarrow> bool" where
  "exclusive j =
     (list_ex (\<lambda>k. truthy (get j k)) node_tags
      \<and> list_all (\<lambda>k. if truthy (get j k) then exclusive (get j k) else True) unary_tags
      \<and> list_all (\<lambda>k. if truthy (get j k)
                       then is_pair (get j k) \<and> exclusive (get (get j k) ''0'')
                            \<and> exclusive (get (get j k) ''1'')
                       else True) binary_tags)"
  by pat_completeness auto

termination
  by (relation "measure jsz") (auto simp: jsz_get_tag jsz_get_get is_tag_unary is_tag_binary)

declare exclusive.simps [simp del]

text \<open>
  No object of the value carries more than one node key (with a truthy value): the
  shape of the trees the parser builds.
\<close>

fun one_tag :: "json \<Rightarrow> bool" where
  "one_tag (JObj kvs) =
     (length (filter (\<lambda>k. truthy (get (JObj kvs) k)) node_tags) \<le> 1
      \<and> list_all (\<lambda>kv. one_tag (snd kv)) kvs)"
| "one_tag (JArr xs) = list_all one_tag xs"
| "one_tag j = True"

text \<open>An object with two node keys: \<open>{nec: {prop: 'p'}, conj: [{bad: 1}, {bad: 1}]}\<close>.\<close>

definition two_key_node :: json where
  "two_key_node =
     JObj [(''nec'', JObj [(''prop'', JStr ''p'')]),
           (''conj'', JArr [JObj [(''bad'', JNum 1)], JObj [(''bad'', JNum 1)]])]"

subsection \<open>Evaluation\<close>

text \<open>
  \<open>===\<close> on the results of two evaluations: an array is a new object each time it is
  built, equal to no other. \<open>L.indexOf(a) === -1\<close> compares the same way: an object or
  array is found only where the very same object was pushed, which does not happen for
  nodes taken from different positions of a tree.
\<close>

definition strict_eq :: "json \<Rightarrow> json \<Rightarrow> bool" where
  "strict_eq a b = (\<not> is_object a \<and> a = b)"

definition strict_mem :: "json \<Rightarrow> json list \<Rightarrow> bool" where
  "strict_mem a L = list_ex (strict_eq a) L"

text \<open>
  The loop of the \<open>group\<close> branch: \<open>while (g) { a = g[0]; if (L.indexOf(a) === -1)
  L.push(a); if (g[1].prop) L.push(g[1]); g = g[1].group; }\<close>
\<close>

function group_loop :: "json \<Rightarrow> json list \<Rightarrow> error + json list" where
  "group_loop g L =
     (if truthy g then
        (if nullish (get g ''1'') then Inl TypeError
         else group_loop (get (get g ''1'') ''group'')
                ((if strict_mem (get g ''0'') L then L else L @ [get g ''0''])
                   @ (if truthy (get (get g ''1'') ''prop'') then [get g ''1''] else [])))
      else Inr L)"
  by pat_completeness auto

termination
proof (relation "measure (\<lambda>(g, L). if truthy g then Suc (jsz g) else 0)", goal_cases)
  case 1
  show ?case by simp
next
  case (2 g L)
  have "truthy (get (get g ''1'') ''group'') \<Longrightarrow> jsz (get (get g ''1'') ''group'') < jsz g"
    using jsz_get_tag [of "''group''" "get g ''1''"] jsz_get_le [of g "''1''"] by simp
  with 2 show ?case by auto
qed

declare group_loop.simps [simp del]

lemma jsz_get_get_double:
  "is_tag k \<Longrightarrow> truthy (get j k) \<Longrightarrow> Suc (2 * jsz (get (get j k) k')) < 2 * jsz j"
  using jsz_get_get [of k j k'] by simp

definition as_json :: "error + bool \<Rightarrow> error + json" where
  "as_json r = (case r of Inl e \<Rightarrow> Inl e | Inr b \<Rightarrow> Inr (JBool b))"

text \<open>
  \<open>_truth(model, state, json)\<close>. Its result is a boolean, the array of a \<open>group\<close>, or
  \<open>undefined\<close>. The first argument of the functions below is the binding of the free
  identifier \<open>model\<close>, which \<open>gAccessStrict\<close> and \<open>gAccessibility\<close> read; the second
  is the \<open>_states\<close> of the parameter \<open>model\<close>.

  \<open>every_truth\<close> is \<open>xs.every(function (s) { return _truth(model, s, f); })\<close>,
  \<open>some_truth\<close> the same with \<open>some\<close>: both stop at the first result that decides.
  \<open>every_know\<close> is the loop of the \<open>eknow\<close> branch,
  \<open>L.every(function (agent) { return _truth(model, state, {know: [agent, f]}); })\<close>:
  the node it builds has the single key \<open>know\<close>, so the call runs the \<open>know\<close> branch
  with \<open>agent\<close> and \<open>f\<close>, which is written out here.
\<close>

function truth_json :: "states option \<Rightarrow> states \<Rightarrow> nat \<Rightarrow> json \<Rightarrow> error + json"
  and every_truth :: "states option \<Rightarrow> states \<Rightarrow> nat list \<Rightarrow> json \<Rightarrow> error + bool"
  and some_truth :: "states option \<Rightarrow> states \<Rightarrow> nat list \<Rightarrow> json \<Rightarrow> error + bool"
  and every_know :: "states option \<Rightarrow> states \<Rightarrow> nat \<Rightarrow> json list \<Rightarrow> json \<Rightarrow> error + bool" where
  "truth_json glob model st json =
     (if nullish json then Inl TypeError
      else if truthy (get json ''prop'') then as_json (valuation model (get json ''prop'') st)
      else if truthy (get json ''neg'') then
        (case truth_json glob model st (get json ''neg'') of
           Inl e \<Rightarrow> Inl e
         | Inr v \<Rightarrow> Inr (JBool (\<not> truthy v)))
      else if truthy (get json ''conj'') then
        (case truth_json glob model st (get (get json ''conj'') ''0'') of
           Inl e \<Rightarrow> Inl e
         | Inr a \<Rightarrow>
             if truthy a then truth_json glob model st (get (get json ''conj'') ''1'') else Inr a)
      else if truthy (get json ''disj'') then
        (case truth_json glob model st (get (get json ''disj'') ''0'') of
           Inl e \<Rightarrow> Inl e
         | Inr a \<Rightarrow>
             if truthy a then Inr a else truth_json glob model st (get (get json ''disj'') ''1''))
      else if truthy (get json ''impl'') then
        (case truth_json glob model st (get (get json ''impl'') ''0'') of
           Inl e \<Rightarrow> Inl e
         | Inr a \<Rightarrow>
             if truthy a then truth_json glob model st (get (get json ''impl'') ''1'')
             else Inr (JBool True))
      else if truthy (get json ''equi'') then
        (case truth_json glob model st (get (get json ''equi'') ''0'') of
           Inl e \<Rightarrow> Inl e
         | Inr a \<Rightarrow>
             (case truth_json glob model st (get (get json ''equi'') ''1'') of
                Inl e \<Rightarrow> Inl e
              | Inr b \<Rightarrow> Inr (JBool (strict_eq a b))))
      else if truthy (get json ''nec'') then
        (case getSuccessorsOfOld model st of
           Inl e \<Rightarrow> Inl e
         | Inr None \<Rightarrow> Inl TypeError
         | Inr (Some []) \<Rightarrow> Inr (JBool True)
         | Inr (Some (L0 # L)) \<Rightarrow> as_json (every_truth glob model L0 (get json ''nec'')))
      else if truthy (get json ''poss'') then
        (case getSuccessorsOfOld model st of
           Inl e \<Rightarrow> Inl e
         | Inr None \<Rightarrow> Inl TypeError
         | Inr (Some []) \<Rightarrow> Inr (JBool True)
         | Inr (Some (L0 # L)) \<Rightarrow> as_json (some_truth glob model L0 (get json ''poss'')))
      else if truthy (get json ''know'') then
        (if nullish (get (get json ''know'') ''0'') then Inl TypeError
         else case getSuccessorsOf model st (agent_key (get (get (get json ''know'') ''0'') ''prop'')) of
                Inl e \<Rightarrow> Inl e
              | Inr None \<Rightarrow> Inr (JBool True)
              | Inr (Some A) \<Rightarrow> as_json (every_truth glob model A (get (get json ''know'') ''1'')))
      else if truthy (get json ''group'') then
        (case group_loop (get json ''group'') [] of
           Inl e \<Rightarrow> Inl e
         | Inr L \<Rightarrow> Inr (JArr L))
      else if truthy (get json ''eknow'') then
        (case truth_json glob model st (get (get json ''eknow'') ''0'') of
           Inl e \<Rightarrow> Inl e
         | Inr (JArr L) \<Rightarrow> as_json (every_know glob model st L (get (get json ''eknow'') ''1''))
         | Inr _ \<Rightarrow> Inr JUndef)
      else if truthy (get json ''distrib'') then
        (case truth_json glob model st (get (get json ''distrib'') ''0'') of
           Inl e \<Rightarrow> Inl e
         | Inr (JArr L) \<Rightarrow>
             (case gAccessStrict glob st L of
                Inl e \<Rightarrow> Inl e
              | Inr None \<Rightarrow> Inl TypeError
              | Inr (Some A) \<Rightarrow> as_json (every_truth glob model A (get (get json ''distrib'') ''1'')))
         | Inr _ \<Rightarrow> Inr JUndef)
      else if truthy (get json ''common'') then
        (case truth_json glob model st (get (get json ''common'') ''0'') of
           Inl e \<Rightarrow> Inl e
         | Inr (JArr L) \<Rightarrow>
             (case gAccessibility glob st L of
                Inl e \<Rightarrow> Inl e
              | Inr G \<Rightarrow> as_json (every_truth glob model G (get (get json ''common'') ''1'')))
         | Inr _ \<Rightarrow> Inr JUndef)
      else Inl InvalidFormula)"
| "every_truth glob model [] f = Inr True"
| "every_truth glob model (s # xs) f =
     (case truth_json glob model s f of
        Inl e \<Rightarrow> Inl e
      | Inr v \<Rightarrow> if truthy v then every_truth glob model xs f else Inr False)"
| "some_truth glob model [] f = Inr False"
| "some_truth glob model (s # xs) f =
     (case truth_json glob model s f of
        Inl e \<Rightarrow> Inl e
      | Inr v \<Rightarrow> if truthy v then Inr True else some_truth glob model xs f)"
| "every_know glob model st [] f = Inr True"
| "every_know glob model st (agent # L) f =
     (if nullish agent then Inl TypeError
      else case getSuccessorsOf model st (agent_key (get agent ''prop'')) of
             Inl e \<Rightarrow> Inl e
           | Inr None \<Rightarrow> every_know glob model st L f
           | Inr (Some A) \<Rightarrow>
               (case every_truth glob model A f of
                  Inl e \<Rightarrow> Inl e
                | Inr b \<Rightarrow> if b then every_know glob model st L f else Inr False))"
  by pat_completeness auto

termination
  apply (relation "inv_image (less_than <*lex*> less_than)
           (\<lambda>x. case x of
                  Inl (Inl (g, m, s, j)) \<Rightarrow> (2 * jsz j, 0)
                | Inl (Inr (g, m, xs, j)) \<Rightarrow> (2 * jsz j, Suc (length xs))
                | Inr (Inl (g, m, xs, j)) \<Rightarrow> (2 * jsz j, Suc (length xs))
                | Inr (Inr (g, m, s, L, f)) \<Rightarrow> (Suc (2 * jsz f), length L))")
   apply (intro wf_inv_image wf_lex_prod wf_less_than)
  apply (simp_all add: jsz_get_tag jsz_get_get jsz_get_get_double)
  done

declare truth_json.simps [simp del]


text \<open>
  The public \<open>truth(model, state, wff)\<close>. Its arguments are arbitrary values:
  \<open>model instanceof MPL.Model\<close> and \<open>wff instanceof MPL.Wff\<close> tell the instances from
  the rest. \<open>model.getStates()[state]\<close> is an assignment object (truthy, even when
  empty) or \<open>null\<close>/\<open>undefined\<close>.
\<close>

datatype model_arg = ModelInstance states | NotAModel json

datatype wff_arg = WffInstance wff | NotAWff json

definition truth :: "states option \<Rightarrow> model_arg \<Rightarrow> nat \<Rightarrow> wff_arg \<Rightarrow> error + json" where
  "truth glob model st w =
     (case model of
        NotAModel x \<Rightarrow> Inl InvalidModel
      | ModelInstance S \<Rightarrow>
          (case nth_state (getStates S) st of
             None \<Rightarrow> Inl (StateNotFound st)
           | Some asg \<Rightarrow>
               (case w of
                  NotAWff x \<Rightarrow> Inl InvalidWff
                | WffInstance x \<Rightarrow> truth_json glob S st (wff_json x))))"

text \<open>The nodes the parser builds: an object with the one key of its kind.\<close>

definition Prop :: "string \<Rightarrow> json" where
  "Prop p = JObj [(''prop'', JStr p)]"

definition Neg :: "json \<Rightarrow> json" where
  "Neg f = JObj [(''neg'', f)]"

definition Nec :: "json \<Rightarrow> json" where
  "Nec f = JObj [(''nec'', f)]"

definition Poss :: "json \<Rightarrow> json" where
  "Poss f = JObj [(''poss'', f)]"

definition Know :: "json \<Rightarrow> json \<Rightarrow> json" where
  "Know a f = JObj [(''know'', JArr [a, f])]"

section \<open>Example models\<close>

subsection \<open>A model with a two-cycle\<close>

definition ebind :: "error + 'a \<Rightarrow> ('a \<Rightarrow> error + 'b) \<Rightarrow> error + 'b" where
  "ebind r f = (case r of Inl e \<Rightarrow> Inl e | Inr x \<Rightarrow> f x)"

text \<open>
  Two states \<open>0\<close> and \<open>1\<close>, made by \<open>addState({})\<close> twice, then
  \<open>addTransition(0, 1, ['a'])\<close> and \<open>addTransition(1, 0, ['a'])\<close>.
\<close>

definition cycle_model :: "error + states" where
  "cycle_model =
     ebind (addTransition (addState (addState [] []) []) 0 1 [''a''])
       (\<lambda>S. addTransition S 1 0 [''a''])"

subsection \<open>A state without transitions\<close>

text \<open>One state, made by \<open>addState({})\<close>.\<close>

definition single_model :: states where
  "single_model = addState [] []"

subsection \<open>A model with two agents\<close>

text \<open>
  Three states, \<open>p\<close> true at state \<open>1\<close> only, made by \<open>addState({})\<close>,
  \<open>addState({p: true})\<close>, \<open>addState({})\<close>; then \<open>addTransition(0, 1, ['a'])\<close> and
  \<open>addTransition(0, 2, ['b'])\<close>.
\<close>

definition two_agent_model :: "error + states" where
  "two_agent_model =
     ebind (addTransition (addState (addState (addState [] []) [(''p'', JBool True)]) []) 0 1 [''a''])
       (\<lambda>S. addTransition S 0 2 [''b''])"

subsection \<open>A model with a removed state\<close>

text \<open>
  Two states and \<open>addTransition(0, 1, ['a'])\<close>, then \<open>removeState(1)\<close>.
\<close>

definition removed_model :: "error + states \<times> error option" where
  "removed_model =
     ebind (addTransition (addState (addState [] []) []) 0 1 [''a''])
       (\<lambda>S. Inr (removeState S 1))"

subsection \<open>A model to write and read back\<close>

text \<open>
  Three states, \<open>p\<close> and \<open>q\<close> true at state \<open>0\<close>; \<open>addTransition(0, 0, ['a'])\<close>,
  \<open>addTransition(0, 2, ['a'])\<close>, then \<open>removeState(1)\<close>.
\<close>

definition string_model :: "error + states" where
  "string_model =
     ebind (addTransition
              (addState (addState (addState [] [(''p'', JBool True), (''q'', JBool True)]) []) [])
              0 0 [''a''])
       (\<lambda>S. ebind (addTransition S 0 2 [''a''])
          (\<lambda>S. case removeState S 1 of (S', None) \<Rightarrow> Inr S' | (S', Some e) \<Rightarrow> Inl e))"

subsection \<open>A model with a chain\<close>

text \<open>
  Three states; agent \<open>a\<close> goes from \<open>0\<close> to \<open>1\<close> and from \<open>1\<close> to \<open>2\<close>, agent
  \<open>b\<close> from \<open>0\<close> to \<open>2\<close>.
\<close>

definition chain_model :: states where
  "chain_model =
     [Some \<lparr>assignment = [], successors = SMap [(''a'', [1]), (''b'', [2])]\<rparr>,
      Some \<lparr>assignment = [], successors = SMap [(''a'', [2])]\<rparr>,
      Some \<lparr>assignment = [], successors = SMap []\<rparr>]"

subsection \<open>A model read from a string\<close>

text \<open>A new model after \<open>loadFromModelString('AS;')\<close>: one state, no proposition true.\<close>

definition restored_model :: states where
  "restored_model = fst (loadFromModelString [] ''AS;'')"

text \<open>
  The same, followed by \<open>addState({})\<close> twice and \<open>addTransition(1, 2, ['a'])\<close>:
  state \<open>0\<close> was read from the string, states \<open>1\<close> and \<open>2\<close> were added.
\<close>

definition mixed_model :: "error + states" where
  "mixed_model = addTransition (addState (addState restored_model []) []) 1 2 [''a'']"

definition mixed_states :: states where
  "mixed_states =
     [Some \<lparr>assignment = [], successors = SObj\<rparr>,
      Some \<lparr>assignment = [], successors = SMap [(''a'', [2])]\<rparr>,
      Some \<lparr>assignment = [], successors = SMap []\<rparr>]"

section \<open>Properties of the closure\<close>

text \<open>
  What the closure does compute. \<open>edge\<close> is one step of an agent's relation, as
  \<open>getSuccessorsOf\<close> reports it.
\<close>

definition edge :: "states \<Rightarrow> string option \<Rightarrow> (nat \<times> nat) set" where
  "edge model agent = {(s, t). \<exists>L. getSuccessorsOf model s agent = Inr (Some L) \<and> t \<in> set L}"

lemma closure_loop_distinct:
  "closure_loop model agent C V = Inr V' \<Longrightarrow> distinct V \<Longrightarrow> distinct V'"
proof (induction model agent C V rule: closure_loop.induct)
  case (1 model agent C V)
  from "1.prems"(1) show ?case
    apply (subst (asm) closure_loop.simps)
    using "1.IH" "1.prems"(2)
    apply (auto split: list.splits if_splits sum.splits option.splits)
    done
qed

lemma closure_loop_sound:
  assumes "closure_loop model agent C V = Inr V'"
    and "set C \<subseteq> R" and "set V \<subseteq> R"
    and "\<And>s t. s \<in> R \<Longrightarrow> (s, t) \<in> edge model agent \<Longrightarrow> t \<in> R"
  shows "set V' \<subseteq> R"
  using assms
proof (induction model agent C V rule: closure_loop.induct)
  case (1 model agent C V)
  show ?case
  proof (cases C)
    case Nil
    with "1.prems" show ?thesis by (simp add: closure_loop.simps)
  next
    case (Cons s C')
    show ?thesis
    proof (cases "s = 0")
      case True
      with Cons "1.prems" show ?thesis by (simp add: closure_loop.simps)
    next
      case nz: False
      show ?thesis
      proof (cases "s \<in> set V")
        case True
        with Cons nz "1.prems"(1) have "closure_loop model agent C' V = Inr V'"
          by (subst (asm) closure_loop.simps) simp
        with "1.IH"(3) [OF Cons nz] True "1.prems" Cons show ?thesis by auto
      next
        case False
        from Cons "1.prems"(2) have sR: "s \<in> R" by simp
        from Cons nz False "1.prems"(1) obtain r where r: "getSuccessorsOf model s agent = Inr r"
          by (subst (asm) closure_loop.simps) (auto split: sum.splits)
        show ?thesis
        proof (cases r)
          case None
          with Cons nz False r "1.prems"(1) have "closure_loop model agent C' (V @ [s]) = Inr V'"
            by (subst (asm) closure_loop.simps) simp
          with "1.IH"(1) [OF Cons nz False r None] "1.prems" Cons sR show ?thesis by auto
        next
          case (Some L)
          with r sR "1.prems"(4) have LR: "set L \<subseteq> R"
            by (auto simp: edge_def)
          from Some Cons nz False r "1.prems"(1)
          have "closure_loop model agent (C' @ L) (V @ [s]) = Inr V'"
            by (subst (asm) closure_loop.simps) simp
          with "1.IH"(2) [OF Cons nz False r Some] "1.prems" Cons sR LR show ?thesis by auto
        qed
      qed
    qed
  qed
qed

lemma closure_loop_complete:
  assumes "closure_loop model agent C V = Inr V'"
    and "set C \<subseteq> R" and "0 \<notin> R"
    and "\<forall>s t. s \<in> R \<longrightarrow> (s, t) \<in> edge model agent \<longrightarrow> t \<in> R"
    and "\<forall>s t. s \<in> set V \<longrightarrow> (s, t) \<in> edge model agent \<longrightarrow> t \<in> set V \<union> set C"
  shows "set V \<union> set C \<subseteq> set V'
         \<and> (\<forall>s t. s \<in> set V' \<longrightarrow> (s, t) \<in> edge model agent \<longrightarrow> t \<in> set V')"
  using assms
proof (induction model agent C V rule: closure_loop.induct)
  case (1 model agent C V)
  show ?case
  proof (cases C)
    case Nil
    with "1.prems"(1) have "V' = V" by (simp add: closure_loop.simps)
    with Nil "1.prems"(5) show ?thesis by auto
  next
    case (Cons s C')
    with "1.prems"(2) have sR: "s \<in> R" and C'R: "set C' \<subseteq> R"
      by auto
    from sR "1.prems"(3) have nz: "s \<noteq> 0"
      by (cases "s = 0") simp_all
    show ?thesis
    proof (cases "s \<in> set V")
      case True
      with Cons nz "1.prems"(1) have loop: "closure_loop model agent C' V = Inr V'"
        by (subst (asm) closure_loop.simps) simp
      have inv: "\<forall>u t. u \<in> set V \<longrightarrow> (u, t) \<in> edge model agent \<longrightarrow> t \<in> set V \<union> set C'"
        using "1.prems"(5) Cons True by fastforce
      have nn: "\<not> s \<notin> set V" using True by simp
      from "1.IH"(3) [OF Cons nz nn loop C'R "1.prems"(3) "1.prems"(4) inv] True Cons
      show ?thesis by auto
    next
      case False
      from Cons nz False "1.prems"(1) obtain r where r: "getSuccessorsOf model s agent = Inr r"
        by (subst (asm) closure_loop.simps) (auto split: sum.splits)
      show ?thesis
      proof (cases r)
        case None
        with Cons nz False r "1.prems"(1)
        have loop: "closure_loop model agent C' (V @ [s]) = Inr V'"
          by (subst (asm) closure_loop.simps) simp
        have inv: "\<forall>u t. u \<in> set (V @ [s]) \<longrightarrow> (u, t) \<in> edge model agent
                     \<longrightarrow> t \<in> set (V @ [s]) \<union> set C'"
          using "1.prems"(5) Cons r None by (fastforce simp: edge_def)
        from "1.IH"(1) [OF Cons nz False r None loop C'R "1.prems"(3) "1.prems"(4) inv] Cons
        show ?thesis by auto
      next
        case (Some L)
        with r sR "1.prems"(4) have LR: "set (C' @ L) \<subseteq> R"
          using C'R by (auto simp: edge_def)
        from Some Cons nz False r "1.prems"(1)
        have loop: "closure_loop model agent (C' @ L) (V @ [s]) = Inr V'"
          by (subst (asm) closure_loop.simps) simp
        have inv: "\<forall>u t. u \<in> set (V @ [s]) \<longrightarrow> (u, t) \<in> edge model agent
                     \<longrightarrow> t \<in> set (V @ [s]) \<union> set (C' @ L)"
          using "1.prems"(5) Cons r Some by (fastforce simp: edge_def)
        from "1.IH"(2) [OF Cons nz False r Some loop LR "1.prems"(3) "1.prems"(4) inv] Cons
        show ?thesis by auto
      qed
    qed
  qed
qed

text \<open>
  Unless state \<open>0\<close> can be reached, \<open>getAllSuccessorsOf\<close> returns each state that
  can be reached in one or more steps, once.
\<close>

lemma getAllSuccessorsOf_exact:
  assumes V: "getAllSuccessorsOf (Some model) i agent = Inr V"
    and zero: "(i, 0) \<notin> (edge model agent)\<^sup>+"
  shows "set V = {t. (i, t) \<in> (edge model agent)\<^sup>+} \<and> distinct V"
proof -
  let ?E = "edge model agent"
  let ?R = "{t. (i, t) \<in> ?E\<^sup>+}"
  from V obtain r where r: "getSuccessorsOf model i agent = Inr r"
    by (auto simp: getAllSuccessorsOf_def split: sum.splits)
  show ?thesis
  proof (cases r)
    case None
    with r V have "V = []" by (simp add: getAllSuccessorsOf_def)
    moreover have "?R = {}"
    proof -
      have "\<And>t. (i, t) \<notin> ?E" using r None by (simp add: edge_def)
      then show ?thesis by (auto dest: tranclD)
    qed
    ultimately show ?thesis by simp
  next
    case (Some C)
    with r V have loop: "closure_loop model agent C [] = Inr V"
      by (simp add: getAllSuccessorsOf_def)
    have CE: "\<And>t. (i, t) \<in> ?E \<longleftrightarrow> t \<in> set C"
      using r Some by (simp add: edge_def)
    have CR: "set C \<subseteq> ?R" using CE by auto
    have closed: "\<And>s t. s \<in> ?R \<Longrightarrow> (s, t) \<in> ?E \<Longrightarrow> t \<in> ?R"
      by (auto intro: trancl_into_trancl)
    have sound: "set V \<subseteq> ?R"
      using closure_loop_sound [OF loop CR _ closed] by simp
    have "0 \<notin> ?R" using zero by simp
    moreover have "\<forall>s t. s \<in> ?R \<longrightarrow> (s, t) \<in> ?E \<longrightarrow> t \<in> ?R"
      using closed by blast
    moreover have "\<forall>s t. s \<in> set [] \<longrightarrow> (s, t) \<in> ?E \<longrightarrow> t \<in> set [] \<union> set C"
      by simp
    ultimately have "set [] \<union> set C \<subseteq> set V
         \<and> (\<forall>s t. s \<in> set V \<longrightarrow> (s, t) \<in> ?E \<longrightarrow> t \<in> set V)"
      using loop CR by (rule closure_loop_complete [rotated 2])
    then have CV: "set C \<subseteq> set V"
      and stepV: "\<And>s t. s \<in> set V \<Longrightarrow> (s, t) \<in> ?E \<Longrightarrow> t \<in> set V"
      by auto
    have "t \<in> set V" if "(i, t) \<in> ?E\<^sup>+" for t
      using that
    proof (induction rule: trancl_induct)
      case (base y)
      with CE CV show ?case by auto
    next
      case (step y z)
      then show ?case using stepV by blast
    qed
    with sound have "set V = ?R" by auto
    moreover have "distinct V" using closure_loop_distinct [OF loop] by simp
    ultimately show ?thesis by simp
  qed
qed

text \<open>
  C1. The closure of agent \<open>a\<close> from state \<open>0\<close> in the two-cycle model should be
  \<open>{0, 1}\<close>. With \<open>model\<close> bound to that model the code returns \<open>[1]\<close>: after
  visiting \<open>1\<close> the queue is \<open>[0]\<close>, and \<open>while (C[0])\<close> takes the index \<open>0\<close> for the
  end of the queue. (With \<open>model\<close> not bound the call throws.) The loop does terminate
  (\<open>closure_loop\<close> is a total function), it visits no state twice, and its result is
  exact whenever state \<open>0\<close> cannot be reached (\<open>getAllSuccessorsOf_exact\<close>).
\<close>

theorem getAllSuccessorsOf_two_cycle:
  "ebind cycle_model (\<lambda>S. getAllSuccessorsOf (Some S) 0 (Some ''a'')) = Inr [1]
   \<and> getAllSuccessorsOf None 0 (Some ''a'') = Inl ReferenceError"
  by (simp add: cycle_model_def ebind_def addState_def addTransition_def nth_state_def
        map_get_def getAllSuccessorsOf_def getSuccessorsOf_def closure_loop.simps)

section \<open>Properties of the constructor\<close>

lemma str_unary_Inr: "str_unary l a = Inr v \<Longrightarrow> \<exists>va. a = Inr va"
  by (auto simp: str_unary_def split: sum.splits)

lemma str_binary_Inr: "str_binary l m r a b = Inr v \<Longrightarrow> (\<exists>va. a = Inr va) \<and> (\<exists>vb. b = Inr vb)"
  by (auto simp: str_binary_def split: sum.splits)

text \<open>What a successful call of \<open>_jsonToASCII\<close> has found at the node.\<close>

lemma jsonToASCII_cases:
  assumes "jsonToASCII j = Inr v"
  obtains (leaf) "truthy (get j ''prop'')"
  | (unary) k l where "k \<in> set unary_tags" "truthy (get j k)"
      "str_unary l (jsonToASCII (get j k)) = Inr v"
  | (binary) k l m r where "k \<in> set binary_tags" "is_pair (get j k)"
      "str_binary l m r (jsonToASCII (get (get j k) ''0'')) (jsonToASCII (get (get j k) ''1'')) = Inr v"
proof -
  from assms have U: "jsonToASCII j = Inr v" .
  show thesis
    using U leaf unary [of "''neg''"] unary [of "''nec''"] unary [of "''poss''"]
      binary [of "''conj''"] binary [of "''disj''"] binary [of "''impl''"] binary [of "''equi''"]
      binary [of "''know''"] binary [of "''group''"] binary [of "''eknow''"]
      binary [of "''distrib''"] binary [of "''common''"]
    by (subst (asm) jsonToASCII.simps) (simp add: unary_tags_def binary_tags_def split: if_splits)
qed

lemma one_tag_get: "one_tag j \<Longrightarrow> one_tag (get j k)"
proof (cases j)
  case (JObj kvs)
  assume "one_tag j"
  with JObj have all: "list_all (\<lambda>kv. one_tag (snd kv)) kvs" by simp
  show ?thesis
  proof (cases "map_of kvs k")
    case None
    with JObj show ?thesis by simp
  next
    case (Some v)
    then have "(k, v) \<in> set kvs" by (rule map_of_SomeD)
    with all have "one_tag v" by (auto simp: list_all_iff)
    with JObj Some show ?thesis by simp
  qed
next
  case (JArr xs)
  assume "one_tag j"
  with JArr show ?thesis by (auto simp: list_all_iff split: option.splits)
qed (auto split: option.splits)

lemma filter_at_most_one:
  assumes "distinct xs" and "length (filter P xs) \<le> 1"
    and "x \<in> set xs" and "P x" and "y \<in> set xs" and "P y"
  shows "x = y"
proof -
  have d: "distinct (filter P xs)" using assms(1) by simp
  have "card (set (filter P xs)) \<le> 1"
    using assms(2) distinct_card [OF d] by simp
  moreover have "x \<in> set (filter P xs)" "y \<in> set (filter P xs)"
    using assms by simp_all
  ultimately show ?thesis
    by (metis One_nat_def card_le_Suc0_iff_eq List.finite_set)
qed

lemma distinct_node_tags: "distinct node_tags"
  by (simp add: node_tags_def unary_tags_def binary_tags_def)

lemma tag_not_truthy: "is_tag k \<Longrightarrow> truthy (get j k) \<Longrightarrow> \<exists>kvs. j = JObj kvs"
  by (cases j) (auto simp: is_tag_def split: option.splits)

lemma is_tag_node: "k \<in> set node_tags \<Longrightarrow> is_tag k"
  by (auto simp: node_tags_def dest: is_tag_unary is_tag_binary)

lemma one_tag_unique:
  assumes "one_tag j" and "k \<in> set node_tags" and "truthy (get j k)"
    and "k' \<in> set node_tags" and "truthy (get j k')"
  shows "k = k'"
proof -
  from assms(2,3) obtain kvs where j: "j = JObj kvs"
    using tag_not_truthy is_tag_node by blast
  with assms(1) have "length (filter (\<lambda>k. truthy (get j k)) node_tags) \<le> 1"
    by simp
  from filter_at_most_one [OF distinct_node_tags this assms(2,3) assms(4,5)]
  show ?thesis .
qed

text \<open>
  On a value of that shape, a successful call of \<open>_jsonToASCII\<close> has checked the whole
  tree.
\<close>

lemma jsonToASCII_exclusive:
  "jsonToASCII j = Inr v \<Longrightarrow> one_tag j \<Longrightarrow> exclusive j"
proof (induction j arbitrary: v rule: measure_induct_rule [of jsz])
  case (less j)
  note one = less.prems(2)
  from less.prems(1) show ?case
  proof (cases rule: jsonToASCII_cases)
    case leaf
    have p: "''prop'' \<in> set node_tags" by (simp add: node_tags_def)
    have u: "\<And>k. k \<in> set unary_tags \<Longrightarrow> \<not> truthy (get j k)"
    proof
      fix k assume "k \<in> set unary_tags" "truthy (get j k)"
      then have "''prop'' = k"
        using one_tag_unique [OF one p leaf, of k] by (simp add: node_tags_def)
      with \<open>k \<in> set unary_tags\<close> show False by (auto simp: unary_tags_def)
    qed
    have b: "\<And>k. k \<in> set binary_tags \<Longrightarrow> \<not> truthy (get j k)"
    proof
      fix k assume "k \<in> set binary_tags" "truthy (get j k)"
      then have "''prop'' = k"
        using one_tag_unique [OF one p leaf, of k] by (simp add: node_tags_def)
      with \<open>k \<in> set binary_tags\<close> show False by (auto simp: binary_tags_def)
    qed
    from leaf p u b show ?thesis
      by (subst exclusive.simps) (auto simp: list_all_iff list_ex_iff)
  next
    case (unary k0 l)
    have p: "k0 \<in> set node_tags" using unary(1) by (simp add: node_tags_def)
    obtain w where w: "jsonToASCII (get j k0) = Inr w"
      using unary(3) str_unary_Inr by blast
    have "jsz (get j k0) < jsz j"
      using unary jsz_get_tag is_tag_unary by simp
    then have e: "exclusive (get j k0)"
      using less.IH w one_tag_get [OF one] by blast
    have u: "\<And>k. k \<in> set unary_tags \<Longrightarrow> truthy (get j k) \<Longrightarrow> k = k0"
      using one_tag_unique [OF one _ _ p unary(2)] by (simp add: node_tags_def)
    have b: "\<And>k. k \<in> set binary_tags \<Longrightarrow> \<not> truthy (get j k)"
    proof
      fix k assume k: "k \<in> set binary_tags" "truthy (get j k)"
      then have "k = k0"
        using one_tag_unique [OF one _ _ p unary(2), of k] by (simp add: node_tags_def)
      with k(1) unary(1) show False by (auto simp: unary_tags_def binary_tags_def)
    qed
    from unary(2) p e u b show ?thesis
      by (subst exclusive.simps) (auto simp: list_all_iff list_ex_iff)
  next
    case (binary k0 l m r)
    have t: "truthy (get j k0)" using binary(2) by (simp add: is_pair_def)
    have p: "k0 \<in> set node_tags" using binary(1) by (simp add: node_tags_def)
    obtain a b where ab: "jsonToASCII (get (get j k0) ''0'') = Inr a"
        "jsonToASCII (get (get j k0) ''1'') = Inr b"
      using binary(3) str_binary_Inr by blast
    have "jsz (get (get j k0) ''0'') < jsz j" "jsz (get (get j k0) ''1'') < jsz j"
      using binary(1) t jsz_get_get is_tag_binary by simp_all
    then have e: "exclusive (get (get j k0) ''0'')" "exclusive (get (get j k0) ''1'')"
      using less.IH ab one_tag_get [OF one_tag_get [OF one]] by blast+
    have u: "\<And>k. k \<in> set unary_tags \<Longrightarrow> \<not> truthy (get j k)"
    proof
      fix k assume k: "k \<in> set unary_tags" "truthy (get j k)"
      then have "k = k0"
        using one_tag_unique [OF one _ _ p t, of k] by (simp add: node_tags_def)
      with k(1) binary(1) show False by (auto simp: unary_tags_def binary_tags_def)
    qed
    have b: "\<And>k. k \<in> set binary_tags \<Longrightarrow> truthy (get j k) \<Longrightarrow> k = k0"
      using one_tag_unique [OF one _ _ p t] by (simp add: node_tags_def)
    from t p e u b binary(2) show ?thesis
      by (subst exclusive.simps) (auto simp: list_all_iff list_ex_iff)
  qed
qed

lemma Wff_two_key_node:
  "Wff parse two_key_node = Inr \<lparr>wff_json = two_key_node, wff_ascii = ''[]p''\<rparr>"
  by (simp add: two_key_node_def Wff_def typeof_object_def jsonToASCII.simps str_unary_def
        nullish_def)

lemma two_key_node_not_exclusive: "\<not> exclusive two_key_node"
  by (subst exclusive.simps)
     (simp add: two_key_node_def node_tags_def unary_tags_def binary_tags_def is_pair_def
        index_of_key_def is_digit_def exclusive.simps [of "JObj [(''bad'', JNum 1)]"])

text \<open>
  C10, as stated, fails: the constructor accepts \<open>two_key_node\<close>, reading it as
  \<open>[]p\<close> by its key \<open>nec\<close>, although the tree holds, under \<open>conj\<close>, two nodes of no
  recognised kind.
\<close>

theorem Wff_accepts_unrecognized_node:
  "Wff (\<lambda>a. Inl InvalidJSON) two_key_node
     = Inr \<lparr>wff_json = two_key_node, wff_ascii = ''[]p''\<rparr>
   \<and> \<not> exclusive two_key_node"
  using Wff_two_key_node two_key_node_not_exclusive by simp

text \<open>
  C10, amended. When no object of the tree carries more than one node key, a \<open>Wff\<close>
  that was constructed holds a tree built exclusively from recognised node kinds: a
  node of no recognised kind, or a binary node whose children are not exactly two,
  makes the constructor throw. The tree is the one given to the constructor (an object),
  or what the parser returned.
\<close>

theorem Wff_exclusive:
  "Wff parse asciiOrJSON = Inr w \<Longrightarrow> one_tag (wff_json w) \<Longrightarrow>
     exclusive (wff_json w) \<and> (typeof_object asciiOrJSON \<longrightarrow> wff_json w = asciiOrJSON)"
  by (auto simp: Wff_def split: sum.splits json.splits if_splits dest: jsonToASCII_exclusive)

theorem Wff_exclusive_witness:
  "Wff (\<lambda>a. Inl InvalidJSON)
      (JObj [(''conj'', JArr [JObj [(''prop'', JStr ''p'')],
                              JObj [(''neg'', JObj [(''prop'', JStr ''q'')])]])])
     = Inr \<lparr>wff_json = JObj [(''conj'', JArr [JObj [(''prop'', JStr ''p'')],
                              JObj [(''neg'', JObj [(''prop'', JStr ''q'')])]])],
            wff_ascii = ''(p & ~q)''\<rparr>
   \<and> one_tag (JObj [(''conj'', JArr [JObj [(''prop'', JStr ''p'')],
                              JObj [(''neg'', JObj [(''prop'', JStr ''q'')])]])])
   \<and> exclusive (JObj [(''conj'', JArr [JObj [(''prop'', JStr ''p'')],
                              JObj [(''neg'', JObj [(''prop'', JStr ''q'')])]])])"
proof -
  have h: "Wff (\<lambda>a. Inl InvalidJSON)
      (JObj [(''conj'', JArr [JObj [(''prop'', JStr ''p'')],
                              JObj [(''neg'', JObj [(''prop'', JStr ''q'')])]])])
     = Inr \<lparr>wff_json = JObj [(''conj'', JArr [JObj [(''prop'', JStr ''p'')],
                              JObj [(''neg'', JObj [(''prop'', JStr ''q'')])]])],
            wff_ascii = ''(p & ~q)''\<rparr>"
    by (simp add: Wff_def typeof_object_def jsonToASCII.simps nullish_def is_pair_def
          index_of_key_def is_digit_def str_binary_def str_unary_def)
  have o: "one_tag (JObj [(''conj'', JArr [JObj [(''prop'', JStr ''p'')],
                              JObj [(''neg'', JObj [(''prop'', JStr ''q'')])]])])"
    by (simp add: node_tags_def unary_tags_def binary_tags_def index_of_key_def is_digit_def)
  from Wff_exclusive [OF h] h o show ?thesis by simp
qed

lemma Wff_unknown_tag:
  "Wff parse (JObj [(''xor'', JArr [JObj [(''prop'', JStr ''p'')], JObj [(''prop'', JStr ''q'')]])])
     = Inl InvalidJSON"
  by (simp add: Wff_def typeof_object_def jsonToASCII.simps nullish_def is_pair_def)

lemma Wff_three_children:
  "Wff parse (JObj [(''conj'', JArr [JObj [(''prop'', JStr ''p'')], JObj [(''prop'', JStr ''q'')],
                                      JObj [(''prop'', JStr ''r'')]])])
     = Inl InvalidJSON"
  by (simp add: Wff_def typeof_object_def jsonToASCII.simps nullish_def is_pair_def)

section \<open>Properties of the evaluation\<close>

lemmas model_eval =
  ebind_def addState_def addTransition_def removeTransition_def removeState_def nth_state_def
  map_get_def getSuccessorsOf_def getSuccessorsOfOld_def valuation_def obj_truthy_def
  obj_set_def nullish_def as_json_def

text \<open>
  The node \<open>{know: [agent, f]}\<close> that the \<open>eknow\<close> branch builds evaluates as one
  round of \<open>every_know\<close>.
\<close>

lemma know_node:
  "truth_json glob model st (Know agent f) = as_json (every_know glob model st [agent] f)"
  by (subst truth_json.simps)
     (auto simp: Know_def nullish_def index_of_key_def is_digit_def as_json_def every_know.simps
        split: sum.splits option.splits)

text \<open>
  The constructor and the evaluation test the keys of a node in different orders
  (\<open>nec\<close> before \<open>conj\<close> in the first, after it in the second). A node with one key
  is read the same way by both; an object that carries several keys is not: this one is
  accepted by the constructor as \<open>[]p\<close>, and its evaluation follows \<open>conj\<close>.
\<close>

lemma keys_tested_in_different_orders:
  "Wff parse (JObj [(''nec'', Prop ''p''),
                    (''conj'', JArr [JObj [(''bad'', JNum 1)], JObj [(''bad'', JNum 1)]])])
     = Inr \<lparr>wff_json = JObj [(''nec'', Prop ''p''),
                    (''conj'', JArr [JObj [(''bad'', JNum 1)], JObj [(''bad'', JNum 1)]])],
            wff_ascii = ''[]p''\<rparr>
   \<and> truth_json glob single_model 0
        (JObj [(''nec'', Prop ''p''),
               (''conj'', JArr [JObj [(''bad'', JNum 1)], JObj [(''bad'', JNum 1)]])])
     = Inl InvalidFormula"
  by (simp add: Wff_def typeof_object_def jsonToASCII.simps str_unary_def Prop_def
        truth_json.simps nullish_def index_of_key_def is_digit_def)

text \<open>
  C2. \<open>Poss(f)\<close> at a state whose merged successor set is empty should be false. At the
  only state of \<open>single_model\<close>, which has no successors at all, the code returns
  \<open>true\<close>: the \<open>poss\<close> branch repeats the test \<open>if (L.length === 0) return true\<close> of
  the \<open>nec\<close> branch.
\<close>

theorem truth_poss_no_successors:
  "truth_json glob single_model 0 (Poss (Prop ''p'')) = Inr (JBool True)
   \<and> getSuccessorsOfOld single_model 0 = Inr (Some [])"
  by (simp add: single_model_def Poss_def Prop_def truth_json.simps model_eval)

text \<open>
  C3. \<open>Nec(f)\<close> should hold only if \<open>f\<close> holds at every successor, of every agent. In
  \<open>two_agent_model\<close> state \<open>0\<close> has the successor \<open>1\<close> for agent \<open>a\<close> and \<open>2\<close>
  for agent \<open>b\<close>, and \<open>p\<close> is false at \<open>2\<close>; the code still returns \<open>true\<close> for
  \<open>Nec(p)\<close> at \<open>0\<close>, because it reads \<open>L[0]\<close>, the successors of the first agent only.
\<close>

theorem truth_nec_first_agent_only:
  "ebind two_agent_model (\<lambda>S. truth_json glob S 0 (Nec (Prop ''p''))) = Inr (JBool True)
   \<and> ebind two_agent_model (\<lambda>S. getSuccessorsOfOld S 0) = Inr (Some [[1], [2]])
   \<and> ebind two_agent_model (\<lambda>S. truth_json glob S 2 (Prop ''p'')) = Inr (JBool False)"
  by (simp add: two_agent_model_def Nec_def Prop_def truth_json.simps model_eval
        object_prototype_names_def)

text \<open>
  \<open>Know(a, f)\<close> is true at a state where \<open>getSuccessorsOf\<close> finds no successors of
  agent \<open>a\<close> (no entry for \<open>a\<close>, or an empty one), whatever \<open>f\<close> is.
\<close>

lemma truth_know_no_relation:
  "getSuccessorsOf model w (Some a) = Inr None \<or> getSuccessorsOf model w (Some a) = Inr (Some [])
   \<Longrightarrow> truth_json glob model w (Know (Prop a) f) = Inr (JBool True)"
  by (subst truth_json.simps)
     (auto simp: Know_def Prop_def nullish_def index_of_key_def is_digit_def as_json_def)

lemma restored_model_value:
  "restored_model = [Some \<lparr>assignment = [], successors = SObj\<rparr>]"
  by (simp add: restored_model_def loadFromModelString_def model_regex_def Plus_def
        word_char_def digit_char_def match_AS_def)

text \<open>
  C6. \<open>Know(a, f)\<close> should be true at every state where agent \<open>a\<close> has no relation
  entry. At the state of \<open>restored_model\<close>, which has no transition at all, the
  evaluation throws a \<open>TypeError\<close> instead: its \<open>successors\<close> is the plain object that
  \<open>loadFromModelString\<close> stores, and \<open>getSuccessorsOf\<close> calls \<open>get\<close> on it. At a
  state made by \<open>addState\<close> the result is \<open>true\<close> (\<open>truth_know_no_relation\<close>).
\<close>

theorem truth_know_restored_state:
  "nth_state restored_model 0 = Some \<lparr>assignment = [], successors = SObj\<rparr>
   \<and> getSuccessorsOf restored_model 0 (Some ''a'') = Inl TypeError
   \<and> truth_json glob restored_model 0 (Know (Prop ''a'') (Prop ''p'')) = Inl TypeError"
  by (simp add: restored_model_value nth_state_def getSuccessorsOf_def truth_json.simps
        Know_def Prop_def nullish_def index_of_key_def is_digit_def)

text \<open>
  C9. \<open>truth\<close> checks its arguments in the order model, state, formula, and each
  failed check throws its own error whatever the later arguments are: the formula is not
  looked at before all three checks have passed.
\<close>

theorem truth_validates:
  "truth glob (NotAModel x) st w = Inl InvalidModel
   \<and> (nth_state S st = None \<longrightarrow> truth glob (ModelInstance S) st w = Inl (StateNotFound st))
   \<and> (nth_state S st \<noteq> None \<longrightarrow> truth glob (ModelInstance S) st (NotAWff y) = Inl InvalidWff)"
  by (auto simp: truth_def getStates_def nth_state_def split: option.splits)

theorem truth_validates_witness:
  "truth None (NotAModel JNull) 0 (NotAWff JNull) = Inl InvalidModel
   \<and> nth_state ([] :: states) 0 = None
   \<and> truth None (ModelInstance []) 0 (NotAWff JNull) = Inl (StateNotFound 0)
   \<and> nth_state single_model 0 \<noteq> None
   \<and> truth None (ModelInstance single_model) 0 (NotAWff JNull) = Inl InvalidWff"
proof -
  have a: "nth_state ([] :: states) 0 = None" by (simp add: nth_state_def)
  have b: "nth_state single_model 0 \<noteq> None" by (simp add: single_model_def model_eval)
  from truth_validates [of None JNull 0 "NotAWff JNull" "[]" JNull]
    truth_validates [of None JNull 0 "NotAWff JNull" single_model JNull] a b
  show ?thesis by simp
qed

section \<open>Properties of the model operations\<close>

text \<open>Every state of the model was made by \<open>addState\<close>: its successors are a \<open>Map\<close>.\<close>

definition maps_only :: "states \<Rightarrow> bool" where
  "maps_only S = list_all (\<lambda>so. case so of None \<Rightarrow> True | Some st \<Rightarrow> successors st \<noteq> SObj) S"

lemma maps_only_nth:
  "maps_only S \<Longrightarrow> nth_state S i = Some st \<Longrightarrow> \<exists>kv. successors st = SMap kv"
proof -
  assume m: "maps_only S" and n: "nth_state S i = Some st"
  from n have "Some st \<in> set S"
    by (metis nth_mem nth_state_def option.distinct(1))
  with m have "successors st \<noteq> SObj"
    by (auto simp: maps_only_def list_all_iff)
  then show ?thesis by (cases "successors st") auto
qed

lemma removeAgents_no_agent:
  "removeAgents (SMap kv) target (map (\<lambda>x. None) xs) = Inr (SMap kv)"
  by (induction xs) (simp_all add: map_get_def)

lemma removeTransition_no_agent:
  assumes "maps_only S"
  shows "removeTransition S source target (map (\<lambda>x. None) xs) = Inr S"
proof (cases "nth_state S source")
  case None
  then show ?thesis by (simp add: removeTransition_def)
next
  case (Some st)
  with assms obtain kv where kv: "successors st = SMap kv"
    using maps_only_nth by blast
  from Some have "source < length S" "S ! source = Some st"
    by (auto simp: nth_state_def split: if_splits)
  then have "S[source := Some (st\<lparr>successors := SMap kv\<rparr>)] = S"
    using kv by (metis list_update_id state.surjective state.update_convs(2))
  with Some kv show ?thesis
    by (simp add: removeTransition_def removeAgents_no_agent)
qed

lemma removeState_forEach_no_agent:
  "maps_only S \<Longrightarrow> removeState_forEach S st indices = (S, None)"
  by (induction indices) (simp_all add: removeTransition_no_agent split: option.splits)

lemma maps_only_update_None: "maps_only S \<Longrightarrow> maps_only (S[i := None])"
  unfolding maps_only_def list_all_iff
  by (metis (no_types, lifting) insertE option.simps(4) set_update_subset_insert subsetD)

text \<open>
  What \<open>removeState\<close> does to a model made by \<open>addState\<close> and \<open>addTransition\<close>: it
  sets the slot to \<open>null\<close> and changes nothing else.
\<close>

lemma removeState_only_clears_slot:
  "maps_only S \<Longrightarrow> nth_state S st \<noteq> None \<Longrightarrow> removeState S st = (S[st := None], None)"
  by (auto simp: removeState_def removeState_forEach_no_agent maps_only_update_None)

lemma removeState_absent: "nth_state S st = None \<Longrightarrow> removeState S st = (S, None)"
  by (simp add: removeState_def)

text \<open>
  C4. After \<open>removeState(i)\<close> no relation should contain \<open>i\<close> as a target. In
  \<open>removed_model\<close> state \<open>1\<close> was removed, \<open>getSuccessorsOf(1, a)\<close> is \<open>undefined\<close>,
  and yet state \<open>0\<close> still has the transition to \<open>1\<close>: \<open>removeState\<close> hands
  \<open>removeTransition\<close> the array of states where a list of agents is expected, so no
  transition is ever removed.
\<close>

theorem removeState_keeps_transitions:
  "removed_model
     = Inr ([Some \<lparr>assignment = [], successors = SMap [(''a'', [1])]\<rparr>, None], None)
   \<and> ebind removed_model (\<lambda>(S, e). getSuccessorsOf S 1 (Some ''a'')) = Inr None
   \<and> ebind removed_model (\<lambda>(S, e). getSuccessorsOf S 0 (Some ''a'')) = Inr (Some [1])"
  by (simp add: removed_model_def model_eval)

text \<open>Names that are array indices are written first, whatever the order they were set in.\<close>

lemma getModelString_index_names_first:
  "getModelString (addState [] [(''b'', JBool True), (''1'', JBool True)]) = ''A1,bS;''"
  by (simp add: addState_def obj_set_def getModelString_def state_string_def own_keys_def
        array_index_def index_of_key_def is_digit_def)

text \<open>
  C5. Writing \<open>string_model\<close> with \<open>getModelString\<close> and reading the string back
  with \<open>loadFromModelString\<close> should give the same successors. The string has no
  successors in it (\<open>for ... in\<close> over a \<open>Map\<close> enumerates nothing), and the states read
  back hold a plain object where the \<open>Map\<close> was: state \<open>0\<close> had the successors
  \<open>[0, 2]\<close> for agent \<open>a\<close>, and asking for them after the round trip throws. The number
  of states and the assignments do survive.
\<close>

theorem model_string_loses_successors:
  "ebind string_model (\<lambda>S. Inr (getModelString S)) = Inr ''Ap,qS;;AS;''
   \<and> ebind string_model (\<lambda>S. Inr (loadFromModelString S (getModelString S)))
       = Inr ([Some \<lparr>assignment = [(''p'', JBool True), (''q'', JBool True)], successors = SObj\<rparr>,
               None,
               Some \<lparr>assignment = [], successors = SObj\<rparr>], None)
   \<and> ebind string_model (\<lambda>S. getSuccessorsOf S 0 (Some ''a'')) = Inr (Some [0, 2])
   \<and> ebind string_model
        (\<lambda>S. getSuccessorsOf (fst (loadFromModelString S (getModelString S))) 0 (Some ''a''))
       = Inl TypeError"
  by (simp add: string_model_def model_eval getModelString_def state_string_def
        own_keys_def array_index_def index_of_key_def is_digit_def
        loadFromModelString_def model_regex_def Plus_def word_char_def digit_char_def
        match_AS_def)

section \<open>Properties of the closure over groups\<close>

lemma collect_two:
  assumes "getAllSuccessorsOf model i (Some a) = Inr A"
    and "getAllSuccessorsOf model i (Some b) = Inr B"
  shows "collect_closures model i [Prop a, Prop b] = Inr [A, B]"
proof (cases model)
  case None
  with assms(1) show ?thesis by (simp add: getAllSuccessorsOf_def)
next
  case (Some S)
  with assms show ?thesis by (simp add: Prop_def getE_def nullish_def)
qed

lemma set_push_new: "set (push_new F array) = set F \<union> set array"
  by (induction array arbitrary: F) auto

text \<open>
  C7. For every binding of \<open>model\<close>, state \<open>i\<close> and agents \<open>a\<close> and \<open>b\<close>: the
  union \<open>gAccessibility\<close> over the two agents contains the closure of each, and the
  intersection \<open>gAccessStrict\<close> is contained in the closure of each. (The closures are
  the results of \<open>getAllSuccessorsOf\<close>; when one of them throws instead, so do the union
  and the intersection, by \<open>group_closures_throw\<close>.)
\<close>

theorem group_closures:
  assumes "getAllSuccessorsOf model i (Some a) = Inr A"
    and "getAllSuccessorsOf model i (Some b) = Inr B"
  shows "\<exists>U F.
           gAccessibility model i [Prop a, Prop b] = Inr U
         \<and> gAccessStrict model i [Prop a, Prop b] = Inr (Some F)
         \<and> set A \<subseteq> set U \<and> set B \<subseteq> set U
         \<and> set F \<subseteq> set A \<and> set F \<subseteq> set B"
proof -
  have S: "collect_closures model i [Prop a, Prop b] = Inr [A, B]"
    using assms by (rule collect_two)
  have U: "gAccessibility model i [Prop a, Prop b] = Inr (push_new (push_new [] A) B)"
    using S by (simp add: gAccessibility_def)
  have F: "gAccessStrict model i [Prop a, Prop b]
             = Inr (Some (filter (\<lambda>s. s \<in> set B) (filter (\<lambda>s. s \<in> set A) A)))"
    using S by (simp add: gAccessStrict_def)
  show ?thesis
    using U F by (auto simp: set_push_new)
qed

theorem group_closures_witness:
  "mixed_model = Inr mixed_states
   \<and> getAllSuccessorsOf (Some mixed_states) 1 (Some ''a'') = Inr [2]
   \<and> getAllSuccessorsOf (Some mixed_states) 1 (Some ''b'') = Inr []
   \<and> gAccessibility (Some mixed_states) 1 [Prop ''a'', Prop ''b''] = Inr [2]
   \<and> gAccessStrict (Some mixed_states) 1 [Prop ''a'', Prop ''b''] = Inr (Some [])
   \<and> getAllSuccessorsOf (Some chain_model) 0 (Some ''a'') = Inr [1, 2]
   \<and> getAllSuccessorsOf (Some chain_model) 0 (Some ''b'') = Inr [2]
   \<and> gAccessibility (Some chain_model) 0 [Prop ''a'', Prop ''b''] = Inr [1, 2]
   \<and> gAccessStrict (Some chain_model) 0 [Prop ''a'', Prop ''b''] = Inr (Some [2])"
proof -
  have M: "mixed_model = Inr mixed_states"
    by (simp add: mixed_model_def mixed_states_def restored_model_value model_eval)
  have A: "getAllSuccessorsOf (Some mixed_states) 1 (Some ''a'') = Inr [2]"
    by (simp add: mixed_states_def getAllSuccessorsOf_def closure_loop.simps model_eval)
  have B: "getAllSuccessorsOf (Some mixed_states) 1 (Some ''b'') = Inr []"
    by (simp add: mixed_states_def getAllSuccessorsOf_def closure_loop.simps model_eval)
  have U: "gAccessibility (Some mixed_states) 1 [Prop ''a'', Prop ''b''] = Inr [2]"
    using A B by (simp add: gAccessibility_def Prop_def getE_def nullish_def)
  have F: "gAccessStrict (Some mixed_states) 1 [Prop ''a'', Prop ''b''] = Inr (Some [])"
    using A B by (simp add: gAccessStrict_def Prop_def getE_def nullish_def)
  have A': "getAllSuccessorsOf (Some chain_model) 0 (Some ''a'') = Inr [1, 2]"
    by (simp add: chain_model_def getAllSuccessorsOf_def closure_loop.simps model_eval)
  have B': "getAllSuccessorsOf (Some chain_model) 0 (Some ''b'') = Inr [2]"
    by (simp add: chain_model_def getAllSuccessorsOf_def closure_loop.simps model_eval)
  have U': "gAccessibility (Some chain_model) 0 [Prop ''a'', Prop ''b''] = Inr [1, 2]"
    using A' B' by (simp add: gAccessibility_def Prop_def getE_def nullish_def)
  have F': "gAccessStrict (Some chain_model) 0 [Prop ''a'', Prop ''b''] = Inr (Some [2])"
    using A' B' by (simp add: gAccessStrict_def Prop_def getE_def nullish_def)
  from group_closures [OF A B] group_closures [OF A' B'] M A B U F A' B' U' F'
  show ?thesis by simp
qed

text \<open>When a closure throws, the union and the intersection throw the same error.\<close>

lemma group_closures_throw:
  "getAllSuccessorsOf model i (Some a) = Inl e \<Longrightarrow>
     gAccessibility model i [Prop a, Prop b] = Inl e
     \<and> gAccessStrict model i [Prop a, Prop b] = Inl e"
  "getAllSuccessorsOf model i (Some a) = Inr A \<Longrightarrow> getAllSuccessorsOf model i (Some b) = Inl e \<Longrightarrow>
     gAccessibility model i [Prop a, Prop b] = Inl e
     \<and> gAccessStrict model i [Prop a, Prop b] = Inl e"
  by (cases model; simp add: gAccessibility_def gAccessStrict_def getAllSuccessorsOf_def
        Prop_def getE_def nullish_def)+

text \<open>
  The closures return when \<open>model\<close> is bound to a model all of whose states hold a
  \<open>Map\<close>, and the operations other than \<open>loadFromModelString\<close> keep a model so.
\<close>

lemma getSuccessorsOf_total:
  "maps_only S \<Longrightarrow> \<exists>r. getSuccessorsOf S s agent = Inr r"
  using maps_only_nth [of S s]
  by (cases "nth_state S s") (auto simp: getSuccessorsOf_def)

lemma closure_loop_total:
  "maps_only model \<Longrightarrow> \<exists>V'. closure_loop model agent C V = Inr V'"
proof (induction model agent C V rule: closure_loop.induct)
  case (1 model agent C V)
  show ?case
  proof (cases C)
    case Nil
    then show ?thesis by (simp add: closure_loop.simps)
  next
    case (Cons s C')
    from "1.prems" obtain r where r: "getSuccessorsOf model s agent = Inr r"
      using getSuccessorsOf_total by blast
    show ?thesis
    proof (cases "s = 0")
      case True
      with Cons show ?thesis by (simp add: closure_loop.simps)
    next
      case nz: False
      show ?thesis
      proof (cases "s \<in> set V")
        case True
        with Cons nz "1.IH"(3) "1.prems" show ?thesis
          by (subst closure_loop.simps) simp
      next
        case False
        show ?thesis
        proof (cases r)
          case None
          with Cons nz False r "1.IH"(1) "1.prems" show ?thesis
            by (subst closure_loop.simps) simp
        next
          case (Some L)
          with Cons nz False r "1.IH"(2) "1.prems" show ?thesis
            by (subst closure_loop.simps) simp
        qed
      qed
    qed
  qed
qed

lemma getAllSuccessorsOf_total:
  assumes "maps_only S"
  shows "\<exists>V. getAllSuccessorsOf (Some S) st agent = Inr V"
proof -
  from assms obtain r where r: "getSuccessorsOf S st agent = Inr r"
    using getSuccessorsOf_total by blast
  show ?thesis
  proof (cases r)
    case None
    with r show ?thesis by (simp add: getAllSuccessorsOf_def)
  next
    case (Some C)
    with r closure_loop_total [OF assms, of agent C "[]"] show ?thesis
      by (simp add: getAllSuccessorsOf_def)
  qed
qed

lemma maps_only_empty: "maps_only []"
  by (simp add: maps_only_def)

lemma maps_only_addState: "maps_only S \<Longrightarrow> maps_only (addState S asg)"
  by (simp add: maps_only_def addState_def)

lemma maps_only_update:
  assumes "maps_only S" and "successors st \<noteq> SObj"
  shows "maps_only (S[i := Some st])"
proof -
  have "set (S[i := Some st]) \<subseteq> insert (Some st) (set S)" by (rule set_update_subset_insert)
  with assms show ?thesis
    unfolding maps_only_def list_all_iff by fastforce
qed

lemma maps_only_editState: "maps_only S \<Longrightarrow> maps_only (editState S st asg)"
proof (cases "nth_state S st")
  case None
  assume "maps_only S"
  with None show ?thesis by (simp add: editState_def)
next
  case (Some s)
  assume m: "maps_only S"
  with Some obtain kv where "successors s = SMap kv" using maps_only_nth by blast
  then have "successors (s\<lparr>assignment := editAssignment asg (assignment s)\<rparr>) \<noteq> SObj" by simp
  with m Some show ?thesis by (simp add: editState_def maps_only_update)
qed

lemma addAgents_SMap: "addAgents (SMap kv) target agents = Inr s \<Longrightarrow> s \<noteq> SObj"
  by (induction agents arbitrary: kv) (auto split: option.splits)

lemma removeAgents_SMap: "removeAgents (SMap kv) target agents = Inr s \<Longrightarrow> s \<noteq> SObj"
  by (induction agents arbitrary: kv) (auto split: option.splits)

lemma maps_only_addTransition:
  assumes "maps_only S" and "addTransition S source target agentList = Inr S'"
  shows "maps_only S'"
proof (cases "nth_state S source")
  case None
  with assms show ?thesis by (simp add: addTransition_def)
next
  case (Some st)
  with assms(1) obtain kv where kv: "successors st = SMap kv" using maps_only_nth by blast
  show ?thesis
  proof (cases "nth_state S target")
    case None
    with Some assms show ?thesis by (simp add: addTransition_def)
  next
    case tgt: (Some t)
    from assms(2) Some tgt kv obtain s where s: "addAgents (SMap kv) target agentList = Inr s"
      and S': "S' = S[source := Some (st\<lparr>successors := s\<rparr>)]"
      by (auto simp: addTransition_def split: sum.splits)
    from s have "successors (st\<lparr>successors := s\<rparr>) \<noteq> SObj"
      using addAgents_SMap by simp
    with assms(1) S' show ?thesis by (simp add: maps_only_update)
  qed
qed

lemma maps_only_removeTransition:
  assumes "maps_only S" and "removeTransition S source target agentList = Inr S'"
  shows "maps_only S'"
proof (cases "nth_state S source")
  case None
  with assms show ?thesis by (simp add: removeTransition_def)
next
  case (Some st)
  with assms(1) obtain kv where kv: "successors st = SMap kv" using maps_only_nth by blast
  from assms(2) Some kv obtain s where s: "removeAgents (SMap kv) target agentList = Inr s"
    and S': "S' = S[source := Some (st\<lparr>successors := s\<rparr>)]"
    by (auto simp: removeTransition_def split: sum.splits)
  from s have "successors (st\<lparr>successors := s\<rparr>) \<noteq> SObj"
    using removeAgents_SMap by simp
  with assms(1) S' show ?thesis by (simp add: maps_only_update)
qed

lemma maps_only_removeState: "maps_only S \<Longrightarrow> maps_only (fst (removeState S st))"
  by (cases "nth_state S st")
     (auto simp: removeState_def removeState_forEach_no_agent maps_only_update_None)

section \<open>Properties of the assignments\<close>

text \<open>An assignment that stores \<open>true\<close> and nothing else; a model of such assignments.\<close>

definition only_true :: "(string \<times> json) list \<Rightarrow> bool" where
  "only_true asg = list_all (\<lambda>kv. snd kv = JBool True) asg"

definition stored_true :: "states \<Rightarrow> bool" where
  "stored_true S = list_all (\<lambda>so. case so of None \<Rightarrow> True | Some st \<Rightarrow> only_true (assignment st)) S"

lemma obj_update_true: "only_true kvs \<Longrightarrow> only_true (obj_update kvs k (JBool True))"
  by (induction kvs) (auto simp: only_true_def)

lemma obj_set_true: "only_true kvs \<Longrightarrow> only_true (obj_set kvs k (JBool True))"
  by (simp add: obj_set_def obj_update_true)

lemma obj_delete_true: "only_true kvs \<Longrightarrow> only_true (obj_delete kvs k)"
  by (simp add: only_true_def obj_delete_def list_all_iff)

lemma processAssignment_true: "only_true acc \<Longrightarrow> only_true (processAssignment asg acc)"
  by (induction asg acc rule: processAssignment.induct) (auto simp: obj_set_true)

lemma editAssignment_true: "only_true sa \<Longrightarrow> only_true (editAssignment asg sa)"
  by (induction asg sa rule: editAssignment.induct) (auto simp: obj_set_true obj_delete_true)

lemma stored_true_nth:
  "stored_true S \<Longrightarrow> nth_state S i = Some st \<Longrightarrow> only_true (assignment st)"
proof -
  assume s: "stored_true S" and n: "nth_state S i = Some st"
  from n have "Some st \<in> set S"
    by (metis nth_mem nth_state_def option.distinct(1))
  with s show ?thesis by (auto simp: stored_true_def list_all_iff)
qed

lemma stored_true_update:
  assumes "stored_true S" and "case so of None \<Rightarrow> True | Some st \<Rightarrow> only_true (assignment st)"
  shows "stored_true (S[i := so])"
proof -
  have "set (S[i := so]) \<subseteq> insert so (set S)" by (rule set_update_subset_insert)
  with assms show ?thesis
    unfolding stored_true_def list_all_iff by blast
qed

lemma addState_stored_true:
  assumes "stored_true S"
  shows "stored_true (addState S asg)"
proof -
  have "only_true (processAssignment asg [])"
    by (rule processAssignment_true) (simp add: only_true_def)
  with assms show ?thesis by (simp add: stored_true_def addState_def)
qed

lemma editState_stored_true: "stored_true S \<Longrightarrow> stored_true (editState S st asg)"
  by (cases "nth_state S st")
     (auto simp: editState_def intro!: stored_true_update editAssignment_true dest: stored_true_nth)

lemma addTransition_stored_true:
  "stored_true S \<Longrightarrow> addTransition S source target agentList = Inr S' \<Longrightarrow> stored_true S'"
  by (auto simp: addTransition_def split: option.splits sum.splits
        intro!: stored_true_update dest: stored_true_nth)

lemma removeTransition_stored_true:
  "stored_true S \<Longrightarrow> removeTransition S source target agentList = Inr S' \<Longrightarrow> stored_true S'"
  by (auto simp: removeTransition_def split: option.splits sum.splits
        intro!: stored_true_update dest: stored_true_nth)

lemma removeState_forEach_stored_true:
  "stored_true S \<Longrightarrow> stored_true (fst (removeState_forEach S st indices))"
proof (induction indices arbitrary: S)
  case Nil
  then show ?case by simp
next
  case (Cons index rest)
  then show ?case
    by (auto split: option.splits sum.splits dest: removeTransition_stored_true)
qed

lemma removeState_stored_true: "stored_true S \<Longrightarrow> stored_true (fst (removeState S st))"
  by (cases "nth_state S st")
     (auto simp: removeState_def intro!: removeState_forEach_stored_true stored_true_update)

lemma foldl_obj_set_true:
  "only_true asg \<Longrightarrow> only_true (foldl (\<lambda>asg propvar. obj_set asg propvar (JBool True)) asg ps)"
  by (induction ps arbitrary: asg) (simp_all add: obj_set_true)

lemma restore_states_stored_true:
  "stored_true S \<Longrightarrow> stored_true (fst (fst (restore_states tokens S SL)))"
proof (induction tokens S SL rule: restore_states.induct)
  case (1 S SL)
  then show ?case by simp
next
  case (2 token rest S SL)
  have e: "only_true []" by (simp add: only_true_def)
  have n: "stored_true (S @ [None])"
    using "2.prems" by (simp add: stored_true_def)
  have s: "stored_true (S @ [Some \<lparr>assignment =
              foldl (\<lambda>asg propvar. obj_set asg propvar (JBool True)) [] ps, successors = SObj\<rparr>])"
    for ps using "2.prems" foldl_obj_set_true [OF e, of ps] by (simp add: stored_true_def)
  show ?case
    using 2 n s by (auto split: option.splits)
qed

lemma loadFromModelString_stored_true:
  "stored_true S \<Longrightarrow> stored_true (fst (loadFromModelString S modelString))"
proof -
  assume S: "stored_true S"
  have e: "stored_true []" by (simp add: stored_true_def)
  show ?thesis
    using S restore_states_stored_true [OF e, of "butlast (split CHR '';'' modelString)" "[]"]
    by (auto simp: loadFromModelString_def split: prod.splits option.splits)
qed

text \<open>
  \<open>valuation\<close> of a name that is not stored is \<open>false\<close>, unless the name is one every
  object inherits.
\<close>

lemma valuation_not_stored:
  "nth_state S i = Some st \<Longrightarrow> map_of (assignment st) p = None
   \<Longrightarrow> valuation S (JStr p) i = Inr (p \<in> set object_prototype_names)"
  by (simp add: valuation_def obj_truthy_def)

lemma valuation_stored:
  assumes "stored_true S" and "nth_state S i = Some st" and "map_of (assignment st) p = Some v"
  shows "valuation S (JStr p) i = Inr True"
proof -
  from assms(3) have "(p, v) \<in> set (assignment st)" by (rule map_of_SomeD)
  moreover have "only_true (assignment st)" using assms(1,2) by (rule stored_true_nth)
  ultimately have "v = JBool True" by (auto simp: only_true_def list_all_iff)
  with assms(2,3) show ?thesis by (simp add: valuation_def obj_truthy_def)
qed

text \<open>
  C8. The operations do keep every stored value \<open>true\<close> (the lemmas above), but
  \<open>valuation\<close> of a proposition that was never set is not always \<open>false\<close>: it reads
  \<open>assignment[propvar]\<close>, which finds the properties that every object inherits. At the
  state made by \<open>addState({})\<close>, whose assignment is empty, the proposition
  \<open>constructor\<close> is true, for \<open>valuation\<close> and so for \<open>_truth\<close>.
\<close>

theorem valuation_inherited_property:
  "getStates single_model = [Some []]
   \<and> valuation single_model (JStr ''constructor'') 0 = Inr True
   \<and> truth_json glob single_model 0 (Prop ''constructor'') = Inr (JBool True)"
  by (simp add: single_model_def getStates_def Prop_def truth_json.simps model_eval
        object_prototype_names_def)

end
